theory Spec2Isabelle
  imports Main "HOL-Library.Word"
begin

unbundle bit_operations_syntax

section \<open>The CHIP8 machine of chip8.c\<close>

subsection \<open>Data model\<close>

text \<open>
  \<^verbatim>\<open>config_t\<close>: the fields are \<^verbatim>\<open>uint32_t\<close>; they are only read, so they are kept as
  natural numbers and the 32-bit arithmetic done with them is reduced modulo \<open>2 ^ 32\<close> where it
  is done.
\<close>

record config_t =
  window_width :: nat
  window_height :: nat
  fg_color :: nat
  bg_color :: nat
  scale_factor :: nat
  pixel_outlines :: bool

datatype emulator_state_t = QUIT | RUNNING | PAUSED

record instruction_t =
  opcode :: "16 word"
  NNN :: "16 word"
  NN :: "8 word"
  N :: "8 word"
  X :: "8 word"
  Y :: "8 word"

text \<open>
  \<^verbatim>\<open>chip8_t\<close>. A C array is a function from the index to the cell, and every access goes
  through a bounds check below, since C leaves an access outside the array undefined:
  \<^verbatim>\<open>ram[4096]\<close>, \<^verbatim>\<open>display[64*32]\<close>, \<^verbatim>\<open>stack[12]\<close>, \<^verbatim>\<open>V[16]\<close>, \<^verbatim>\<open>keypad[16]\<close>.
  \<^verbatim>\<open>stack_ptr\<close> points into \<^verbatim>\<open>stack\<close>; it is kept as the index of the entry it points at
  (\<open>0\<close> is \<^verbatim>\<open>&stack[0]\<close>, \<open>12\<close> is one past the last entry).
\<close>

record chip8_t =
  state :: emulator_state_t
  ram :: "nat \<Rightarrow> 8 word"
  display :: "nat \<Rightarrow> bool"
  stack :: "nat \<Rightarrow> 16 word"
  stack_ptr :: nat
  V :: "nat \<Rightarrow> 8 word"
  I :: "16 word"
  PC :: "16 word"
  delay_timer :: "8 word"
  sound_timer :: "8 word"
  keypad :: "nat \<Rightarrow> bool"
  rom_name :: string
  inst :: instruction_t

text \<open>What C leaves undefined is a fault of the model.\<close>

datatype fault =
  RamOutOfBounds | DisplayOutOfBounds | StackOutOfBounds | RegisterOutOfBounds | DivisionByZero

definition ram_size :: nat where "ram_size = 4096"
definition display_size :: nat where "display_size = 64 * 32"
definition stack_size :: nat where "stack_size = 12"

definition ram_read :: "chip8_t \<Rightarrow> nat \<Rightarrow> fault + 8 word" where
  "ram_read chip8 a = (if a < ram_size then Inr (ram chip8 a) else Inl RamOutOfBounds)"

definition reg_read :: "chip8_t \<Rightarrow> 8 word \<Rightarrow> fault + 8 word" where
  "reg_read chip8 r = (if unat r < 16 then Inr (V chip8 (unat r)) else Inl RegisterOutOfBounds)"

definition reg_write :: "chip8_t \<Rightarrow> 8 word \<Rightarrow> 8 word \<Rightarrow> fault + chip8_t" where
  "reg_write chip8 r v =
     (if unat r < 16 then Inr (chip8\<lparr>V := (V chip8)(unat r := v)\<rparr>)
      else Inl RegisterOutOfBounds)"

subsection \<open>\<^verbatim>\<open>set_config_from_args\<close>\<close>

text \<open>The defaults; no command line argument overrides any of them.\<close>

definition set_config_from_args :: "string list \<Rightarrow> bool \<times> config_t" where
  "set_config_from_args argv =
     (True, \<lparr>window_width = 64, window_height = 32, fg_color = 0xFFFFFFFF,
             bg_color = 0x000000FF, scale_factor = 20, pixel_outlines = True\<rparr>)"

definition default_config :: config_t where
  "default_config = snd (set_config_from_args [])"

subsection \<open>\<^verbatim>\<open>emulate_instruction\<close>: fetch and decode\<close>

text \<open>
  \<^verbatim>\<open>(ram[PC] << 8) | ram[PC+1]\<close>: both bytes are promoted to \<^verbatim>\<open>int\<close>, so nothing is lost by
  the shift, and \<^verbatim>\<open>PC+1\<close> does not wrap.
\<close>

definition make_opcode :: "8 word \<Rightarrow> 8 word \<Rightarrow> 16 word" where
  "make_opcode hi lo = push_bit 8 (ucast hi) OR ucast lo"

definition fetch :: "chip8_t \<Rightarrow> fault + 16 word" where
  "fetch chip8 =
     (case ram_read chip8 (unat (PC chip8)) of
        Inl e \<Rightarrow> Inl e
      | Inr hi \<Rightarrow>
          (case ram_read chip8 (unat (PC chip8) + 1) of
             Inl e \<Rightarrow> Inl e
           | Inr lo \<Rightarrow> Inr (make_opcode hi lo)))"

text \<open>The instruction format; the assignments to the \<^verbatim>\<open>uint8_t\<close> fields truncate.\<close>

definition decode :: "16 word \<Rightarrow> instruction_t" where
  "decode opc =
     \<lparr>opcode = opc,
      NNN = opc AND 0x0FFF,
      NN = ucast (opc AND 0x0FF),
      N = ucast (opc AND 0x0F),
      X = ucast (drop_bit 8 opc AND 0x0F),
      Y = ucast (drop_bit 4 opc AND 0x0F)\<rparr>"

subsection \<open>\<^verbatim>\<open>emulate_instruction\<close>: the loop nest of \<^verbatim>\<open>DXYN\<close>\<close>

text \<open>
  The inner loop \<^verbatim>\<open>for (int8_t j = 7; j >= 0; j--)\<close>: the argument \<open>Suc j\<close> is the number of
  bits still to draw, bit \<open>j\<close> being the next one. \<^verbatim>\<open>X_coord\<close> is a \<^verbatim>\<open>uint8_t\<close>, the index
  \<^verbatim>\<open>Y_coord * config.window_width + X_coord\<close> is computed in \<^verbatim>\<open>uint32_t\<close>.
\<close>

fun draw_sprite_row ::
  "config_t \<Rightarrow> 8 word \<Rightarrow> nat \<Rightarrow> nat \<Rightarrow> nat \<Rightarrow> chip8_t \<Rightarrow> fault + chip8_t" where
  "draw_sprite_row config sprite_data Y_coord 0 X_coord chip8 = Inr chip8"
| "draw_sprite_row config sprite_data Y_coord (Suc j) X_coord chip8 =
     (let pixel = (Y_coord * window_width config + X_coord) mod 2 ^ 32 in
      if \<not> pixel < display_size then Inl DisplayOutOfBounds
      else
        let sprite_bit = bit sprite_data j;
            chip8 = (if sprite_bit \<and> display chip8 pixel
                     then chip8\<lparr>V := (V chip8)(0xF := 1)\<rparr> else chip8);
            chip8 = chip8\<lparr>display := (display chip8)(pixel := (display chip8 pixel \<noteq> sprite_bit))\<rparr>;
            X_coord = (X_coord + 1) mod 256
        in if X_coord \<ge> window_width config then Inr chip8
           else draw_sprite_row config sprite_data Y_coord j X_coord chip8)"

text \<open>
  The outer loop \<^verbatim>\<open>for (uint8_t i = 0; i < chip8->inst.N; ++i)\<close>. The loop does not
  write \<^verbatim>\<open>inst.N\<close>, so the bound is the argument \<open>n\<close>; \<open>i\<close> stays below it, a
  \<^verbatim>\<open>uint8_t\<close>, so \<^verbatim>\<open>++i\<close> does not wrap. \<^verbatim>\<open>chip8->I + i\<close> is an \<^verbatim>\<open>int\<close>, and
  \<^verbatim>\<open>Y_coord\<close> a \<^verbatim>\<open>uint8_t\<close>.
\<close>

function draw_sprite ::
  "config_t \<Rightarrow> nat \<Rightarrow> nat \<Rightarrow> nat \<Rightarrow> nat \<Rightarrow> chip8_t \<Rightarrow> fault + chip8_t" where
  "draw_sprite config orig_X n i Y_coord chip8 =
     (if i < n then
        (case ram_read chip8 (unat (I chip8) + i) of
           Inl e \<Rightarrow> Inl e
         | Inr sprite_data \<Rightarrow>
             (case draw_sprite_row config sprite_data Y_coord 8 orig_X chip8 of
                Inl e \<Rightarrow> Inl e
              | Inr chip8 \<Rightarrow>
                  (let Y_coord = (Y_coord + 1) mod 256 in
                   if Y_coord \<ge> window_height config then Inr chip8
                   else draw_sprite config orig_X n (i + 1) Y_coord chip8)))
      else Inr chip8)"
  by pat_completeness auto
termination
  by (relation "measure (\<lambda>(config, orig_X, n, i, Y_coord, chip8). n - i)") auto

subsection \<open>\<^verbatim>\<open>emulate_instruction\<close>: the switch on the opcode\<close>

text \<open>
  \<^verbatim>\<open>chip8->PC = *--chip8->stack_ptr\<close> and \<^verbatim>\<open>*chip8->stack_ptr++ = chip8->PC\<close>: the source
  checks neither; the entry read or written lies in \<^verbatim>\<open>stack[12]\<close> or the access is a fault.
\<close>

definition stack_pop :: "chip8_t \<Rightarrow> fault + chip8_t" where
  "stack_pop chip8 =
     (if stack_ptr chip8 = 0 \<or> \<not> stack_ptr chip8 - 1 < stack_size then Inl StackOutOfBounds
      else Inr (chip8\<lparr>stack_ptr := stack_ptr chip8 - 1,
                      PC := stack chip8 (stack_ptr chip8 - 1)\<rparr>))"

definition stack_push :: "chip8_t \<Rightarrow> fault + chip8_t" where
  "stack_push chip8 =
     (if \<not> stack_ptr chip8 < stack_size then Inl StackOutOfBounds
      else Inr (chip8\<lparr>stack := (stack chip8)(stack_ptr chip8 := PC chip8),
                      stack_ptr := stack_ptr chip8 + 1\<rparr>))"

text \<open>
  Case \<^verbatim>\<open>0x0D\<close>. \<^verbatim>\<open>V[X] % config.window_width\<close> is computed in \<^verbatim>\<open>uint32_t\<close> and stored in a
  \<^verbatim>\<open>uint8_t\<close>; both coordinates are read before \<^verbatim>\<open>V[0xF]\<close> is cleared.
\<close>

definition draw :: "chip8_t \<Rightarrow> config_t \<Rightarrow> fault + chip8_t" where
  "draw chip8 config =
     (case reg_read chip8 (X (inst chip8)) of
        Inl e \<Rightarrow> Inl e
      | Inr vx \<Rightarrow>
          if window_width config = 0 then Inl DivisionByZero
          else
            (case reg_read chip8 (Y (inst chip8)) of
               Inl e \<Rightarrow> Inl e
             | Inr vy \<Rightarrow>
                 if window_height config = 0 then Inl DivisionByZero
                 else
                   (let X_coord = (unat vx mod window_width config) mod 256;
                        Y_coord = (unat vy mod window_height config) mod 256;
                        orig_X = X_coord;
                        chip8 = chip8\<lparr>V := (V chip8)(0xF := 0)\<rparr>
                    in draw_sprite config orig_X (unat (N (inst chip8))) 0 Y_coord chip8)))"

definition emulate_opcode :: "chip8_t \<Rightarrow> config_t \<Rightarrow> fault + chip8_t" where
  "emulate_opcode chip8 config =
     (let sel = drop_bit 12 (opcode (inst chip8)) AND 0x0F in
      if sel = 0x0 then
        (if NN (inst chip8) = 0xE0 then
           Inr (chip8\<lparr>display := (\<lambda>p. if p < display_size then False else display chip8 p)\<rparr>)
         else if NN (inst chip8) = 0xEE then stack_pop chip8
         else Inr chip8)
      else if sel = 0x01 then Inr (chip8\<lparr>PC := NNN (inst chip8)\<rparr>)
      else if sel = 0x02 then
        (case stack_push chip8 of
           Inl e \<Rightarrow> Inl e
         | Inr chip8 \<Rightarrow> Inr (chip8\<lparr>PC := NNN (inst chip8)\<rparr>))
      else if sel = 0x06 then reg_write chip8 (X (inst chip8)) (NN (inst chip8))
      else if sel = 0x07 then
        (case reg_read chip8 (X (inst chip8)) of
           Inl e \<Rightarrow> Inl e
         | Inr vx \<Rightarrow> reg_write chip8 (X (inst chip8)) (vx + NN (inst chip8)))
      else if sel = 0x0A then Inr (chip8\<lparr>I := NNN (inst chip8)\<rparr>)
      else if sel = 0x0D then draw chip8 config
      else Inr chip8)"

text \<open>One instruction: fetch, \<^verbatim>\<open>PC += 2\<close> in \<^verbatim>\<open>uint16_t\<close>, decode, switch.\<close>

definition emulate_instruction :: "chip8_t \<Rightarrow> config_t \<Rightarrow> fault + chip8_t" where
  "emulate_instruction chip8 config =
     (case fetch chip8 of
        Inl e \<Rightarrow> Inl e
      | Inr opc \<Rightarrow> emulate_opcode (chip8\<lparr>PC := PC chip8 + 2, inst := decode opc\<rparr>) config)"

subsection \<open>\<^verbatim>\<open>init_chip8\<close> and the loop of \<^verbatim>\<open>main\<close>\<close>

definition font :: "8 word list" where
  "font =
    [0xF0, 0x90, 0x90, 0x90, 0xF0,
     0x20, 0x60, 0x20, 0x20, 0x70,
     0xF0, 0x10, 0xF0, 0x80, 0xF0,
     0xF0, 0x10, 0xF0, 0x10, 0xF0,
     0x90, 0x90, 0xF0, 0x10, 0x10,
     0xF0, 0x80, 0xF0, 0x10, 0xF0,
     0xF0, 0x80, 0xF0, 0x90, 0xF0,
     0xF0, 0x10, 0x20, 0x40, 0x40,
     0xF0, 0x90, 0xF0, 0x90, 0xF0,
     0xF0, 0x90, 0xF0, 0x10, 0xF0,
     0xF0, 0x90, 0xF0, 0x90, 0x90,
     0xE0, 0x90, 0xE0, 0x90, 0xE0,
     0xF0, 0x80, 0x80, 0x80, 0xF0,
     0xE0, 0x90, 0x90, 0x90, 0xE0,
     0xF0, 0x80, 0xF0, 0x80, 0xF0,
     0xF0, 0x80, 0xF0, 0x80, 0x80]"

text \<open>\<^verbatim>\<open>memcpy(&ram[dst], src, length src)\<close>.\<close>

definition memcpy_ram :: "(nat \<Rightarrow> 8 word) \<Rightarrow> nat \<Rightarrow> 8 word list \<Rightarrow> nat \<Rightarrow> 8 word" where
  "memcpy_ram mem dst src = (\<lambda>a. if dst \<le> a \<and> a < dst + length src then src ! (a - dst) else mem a)"

text \<open>
  \<^verbatim>\<open>init_chip8\<close> returns \<^verbatim>\<open>bool\<close> and writes through \<^verbatim>\<open>chip8\<close>: the model returns both. The
  file named \<^verbatim>\<open>rom_name\<close> is the argument \<open>rom_file\<close>, \<open>None\<close> when \<^verbatim>\<open>fopen\<close> fails. The font
  is copied first. \<^verbatim>\<open>fread(&ram[entry_point], rom_size, 1, rom)\<close> reads one item of
  \<^verbatim>\<open>rom_size\<close> bytes and returns the number of items read, which is 0 for an item of size 0.
\<close>

definition init_chip8 :: "chip8_t \<Rightarrow> string \<Rightarrow> 8 word list option \<Rightarrow> bool \<times> chip8_t" where
  "init_chip8 chip8 name rom_file =
     (let entry_point = 0x200;
          chip8 = chip8\<lparr>ram := memcpy_ram (ram chip8) 0 font\<rparr>
      in case rom_file of
           None \<Rightarrow> (False, chip8)
         | Some rom \<Rightarrow>
             (let rom_size = length rom;
                  max_size = ram_size - entry_point
              in if rom_size > max_size then (False, chip8)
                 else if rom_size = 0 then (False, chip8)
                 else
                   (True, chip8\<lparr>ram := memcpy_ram (ram chip8) entry_point rom,
                                state := RUNNING,
                                PC := 0x200,
                                rom_name := name,
                                stack_ptr := 0\<rparr>)))"

text \<open>\<^verbatim>\<open>chip8_t chip8 = {0}\<close> of \<^verbatim>\<open>main\<close>; the enumerator with value 0 is \<^verbatim>\<open>QUIT\<close>.\<close>

definition chip8_zero :: chip8_t where
  "chip8_zero =
     \<lparr>state = QUIT, ram = (\<lambda>a. 0), display = (\<lambda>p. False), stack = (\<lambda>s. 0), stack_ptr = 0,
      V = (\<lambda>r. 0), I = 0, PC = 0, delay_timer = 0, sound_timer = 0, keypad = (\<lambda>k. False),
      rom_name = [],
      inst = \<lparr>opcode = 0, NNN = 0, NN = 0, N = 0, X = 0, Y = 0\<rparr>\<rparr>"

text \<open>
  The machine \<^verbatim>\<open>main\<close> starts from, for a file holding \<open>rom\<close>, and the first \<open>k\<close> instructions
  of its loop, run with the configuration \<^verbatim>\<open>main\<close> passes.
\<close>

definition boot :: "8 word list \<Rightarrow> chip8_t" where
  "boot rom = snd (init_chip8 chip8_zero [] (Some rom))"

primrec cycles :: "nat \<Rightarrow> chip8_t \<Rightarrow> fault + chip8_t" where
  "cycles 0 chip8 = Inr chip8"
| "cycles (Suc k) chip8 =
     (case emulate_instruction chip8 default_config of
        Inl e \<Rightarrow> Inl e
      | Inr chip8 \<Rightarrow> cycles k chip8)"

text \<open>
  The states \<^verbatim>\<open>main\<close> can be in between two instructions, as long as no instruction has
  made an access outside an array: C defines nothing after such an access, and the model has
  no state after a fault. \<^verbatim>\<open>handle_input\<close> only writes \<^verbatim>\<open>state\<close>, which no instruction reads.
\<close>

inductive reachable :: "chip8_t \<Rightarrow> bool" where
  start: "init_chip8 chip8_zero name rom_file = (True, chip8) \<Longrightarrow> reachable chip8"
| step: "reachable chip8 \<Longrightarrow> emulate_instruction chip8 default_config = Inr chip8' \<Longrightarrow>
         reachable chip8'"
| input: "reachable chip8 \<Longrightarrow> reachable (chip8\<lparr>state := s\<rparr>)"

text \<open>
  The same states when, in addition, every jump and every call executed so far went to an even
  address.
\<close>

inductive reachable_even :: "chip8_t \<Rightarrow> bool" where
  start: "init_chip8 chip8_zero name rom_file = (True, chip8) \<Longrightarrow> reachable_even chip8"
| step: "reachable_even chip8 \<Longrightarrow> fetch chip8 = Inr opc \<Longrightarrow>
         (drop_bit 12 opc AND 0x0F \<in> {1, 2} \<longrightarrow> even (unat (NNN (decode opc)))) \<Longrightarrow>
         emulate_instruction chip8 default_config = Inr chip8' \<Longrightarrow>
         reachable_even chip8'"
| input: "reachable_even chip8 \<Longrightarrow> reachable_even (chip8\<lparr>state := s\<rparr>)"

subsection \<open>Example machines\<close>

text \<open>The machine about to run \<^verbatim>\<open>700A\<close> with 250 in \<^verbatim>\<open>V[0]\<close>.\<close>

definition add_example :: chip8_t where
  "add_example = (boot [0x70, 0x0A])\<lparr>V := (V (boot [0x70, 0x0A]))(0 := 250)\<rparr>"

text \<open>The machine about to run \<^verbatim>\<open>3012\<close>, an opcode the switch has no case for.\<close>

definition nop_example :: chip8_t where
  "nop_example = boot [0x30, 0x12]"

text \<open>A call of the subroutine at \<^verbatim>\<open>0x204\<close>, which returns at once.\<close>

definition call_example :: chip8_t where
  "call_example = boot [0x22, 0x04, 0x00, 0x00, 0x00, 0xEE]"

text \<open>A program that starts with a return.\<close>

definition return_example :: chip8_t where
  "return_example = boot [0x00, 0xEE]"

text \<open>A program that calls itself for ever.\<close>

definition call_loop_example :: chip8_t where
  "call_loop_example = boot [0x22, 0x00]"

text \<open>\<^verbatim>\<open>D011\<close> drawing the byte \<^verbatim>\<open>0x80\<close> at the top left cell, which is on.\<close>

definition collision_example :: chip8_t where
  "collision_example =
     (boot [0xD0, 0x11, 0x80])\<lparr>I := 0x202, display := (display (boot [0xD0, 0x11, 0x80]))(0 := True)\<rparr>"

text \<open>The same with the top left cell off.\<close>

definition no_collision_example :: chip8_t where
  "no_collision_example = (boot [0xD0, 0x11, 0x80])\<lparr>I := 0x202\<rparr>"

text \<open>\<^verbatim>\<open>D011\<close> drawing the byte \<^verbatim>\<open>0xFF\<close> in row 0 from column 60 on.\<close>

definition clip_example :: chip8_t where
  "clip_example =
     (boot [0xD0, 0x11, 0xFF])\<lparr>I := 0x202, V := (V (boot [0xD0, 0x11, 0xFF]))(0 := 60)\<rparr>"

text \<open>A program that sets \<^verbatim>\<open>I\<close> to 4095 and draws a sprite of two rows.\<close>

definition sprite_oob_example :: chip8_t where
  "sprite_oob_example = boot [0xAF, 0xFF, 0xD0, 0x12]"

text \<open>A program that jumps to the odd address \<^verbatim>\<open>0x201\<close>.\<close>

definition odd_pc_example :: chip8_t where
  "odd_pc_example = boot [0x12, 0x01]"

text \<open>A program that jumps to the even address \<^verbatim>\<open>0x204\<close>.\<close>

definition even_pc_example :: chip8_t where
  "even_pc_example = boot [0x12, 0x04]"

text \<open>
  A program that jumps to \<^verbatim>\<open>0xFFE\<close>, the last two bytes of the memory, which hold the opcode
  \<^verbatim>\<open>0000\<close>.
\<close>

definition past_end_example :: chip8_t where
  "past_end_example = boot [0x1F, 0xFE]"

section \<open>Fetch and decode\<close>

lemma mask_0xFF: "(0xFF::'a::len word) = mask 8"
  by (simp add: mask_eq_exp_minus_1)

lemma mask_0xF: "(0xF::'a::len word) = mask 4"
  by (simp add: mask_eq_exp_minus_1)

lemma mask_0xFFF: "(0xFFF::'a::len word) = mask 12"
  by (simp add: mask_eq_exp_minus_1)

lemma unat_and_mask: "unat ((w::'a::len word) AND mask n) = unat w mod 2 ^ n"
proof -
  have "unat (w AND mask n) = unat (take_bit n w)"
    by (simp add: take_bit_eq_mask)
  also have "\<dots> = take_bit n (unat w)"
    by (rule unsigned_take_bit_eq)
  also have "\<dots> = unat w mod 2 ^ n"
    by (rule take_bit_eq_mod)
  finally show ?thesis .
qed

lemma unat_u8_less: "unat (b::8 word) < 256"
  using unsigned_less[of b] by simp

lemma unat_u8_u16: "unat (ucast (b::8 word) :: 16 word) = unat b"
  using unat_u8_less[of b] by (simp add: unsigned_ucast_eq take_bit_eq_mod)

lemma unat_make_opcode: "unat (make_opcode hi lo) = 256 * unat hi + unat lo"
proof -
  have "push_bit 8 (ucast hi :: 16 word) + ucast lo = push_bit 8 (ucast hi) OR ucast lo"
    by (rule disjunctive_add_eq_or, rule bit_word_eqI)
      (auto simp: bit_simps dest: bit_imp_le_length)
  then have "unat (make_opcode hi lo) = unat (push_bit 8 (ucast hi :: 16 word) + ucast lo)"
    by (simp add: make_opcode_def)
  also have "\<dots> = 256 * unat hi + unat lo"
    using unat_u8_less[of hi] unat_u8_less[of lo]
    by (simp add: unat_word_ariths push_bit_eq_mult unat_u8_u16)
  finally show ?thesis .
qed

lemma make_opcode_surj: "make_opcode (ucast (drop_bit 8 w)) (ucast w) = w"
  unfolding make_opcode_def
  by (rule bit_word_eqI) (auto simp add: bit_simps dest: bit_imp_le_length)

lemma decode_NN: "ucast (NN (decode opc)) = opc AND 0x00FF"
  unfolding decode_def mask_0xFF
  by (simp, rule bit_word_eqI) (auto simp add: bit_simps dest: bit_imp_le_length)

lemma decode_N: "ucast (N (decode opc)) = opc AND 0x000F"
  unfolding decode_def mask_0xF
  by (simp, rule bit_word_eqI) (auto simp add: bit_simps dest: bit_imp_le_length)

lemma decode_X: "ucast (X (decode opc)) = drop_bit 8 opc AND 0x0F"
  unfolding decode_def mask_0xF
  by (simp, rule bit_word_eqI) (auto simp add: bit_simps dest: bit_imp_le_length)

lemma decode_Y: "ucast (Y (decode opc)) = drop_bit 4 opc AND 0x0F"
  unfolding decode_def mask_0xF
  by (simp, rule bit_word_eqI) (auto simp add: bit_simps dest: bit_imp_le_length)

lemma decode_X_less: "unat (X (decode opc)) < 16"
  unfolding decode_def mask_0xF
  by (simp add: unsigned_ucast_eq unat_and_mask take_bit_eq_mod)

lemma decode_Y_less: "unat (Y (decode opc)) < 16"
  unfolding decode_def mask_0xF
  by (simp add: unsigned_ucast_eq unat_and_mask take_bit_eq_mod)

lemma decode_NNN_less: "unat (NNN (decode opc)) < 4096"
  unfolding decode_def mask_0xFFF
  by (simp add: unat_and_mask)

lemma decode_bytes_NN: "NN (decode (make_opcode hi lo)) = lo"
  unfolding decode_def make_opcode_def mask_0xFF
  by (simp, rule bit_word_eqI) (auto simp add: bit_simps dest: bit_imp_le_length)

lemma decode_bytes_N: "N (decode (make_opcode hi lo)) = lo AND 0xF"
  unfolding decode_def make_opcode_def mask_0xF
  by (simp, rule bit_word_eqI) (auto simp add: bit_simps dest: bit_imp_le_length)

lemma decode_bytes_X: "X (decode (make_opcode hi lo)) = hi AND 0xF"
  unfolding decode_def make_opcode_def mask_0xF
  by (simp, rule bit_word_eqI) (auto simp add: bit_simps dest: bit_imp_le_length)

lemma decode_bytes_Y: "Y (decode (make_opcode hi lo)) = drop_bit 4 lo"
  unfolding decode_def make_opcode_def mask_0xF
  by (simp, rule bit_word_eqI) (auto simp add: bit_simps dest: bit_imp_le_length)

text \<open>
  Claim C4. The opcode made of the byte \<open>hi\<close> at \<^verbatim>\<open>PC\<close> and the byte \<open>lo\<close> at \<^verbatim>\<open>PC+1\<close> is the
  big-endian number \<open>256 * hi + lo\<close>, and every 16-bit value is such an opcode. Decoding any
  16-bit value \<open>opc\<close> gives an instruction whose fields are \<open>opc & 0x0FFF\<close>, \<open>opc & 0x00FF\<close>,
  \<open>opc & 0x000F\<close>, \<open>(opc >> 8) & 0xF\<close> and \<open>(opc >> 4) & 0xF\<close>: the fields stored in a byte
  lose nothing of these values. In terms of the two bytes, \<open>NN\<close> is \<open>lo\<close>, \<open>N\<close> and \<open>Y\<close> are the
  low and the high nibble of \<open>lo\<close>, and \<open>X\<close> is the low nibble of \<open>hi\<close>. \<open>decode\<close> is a total
  function, there is no opcode it rejects.
\<close>

theorem decode_fields:
  "unat (make_opcode hi lo) = 256 * unat hi + unat lo \<and>
   make_opcode (ucast (drop_bit 8 opc)) (ucast opc) = opc \<and>
   opcode (decode opc) = opc \<and>
   NNN (decode opc) = opc AND 0x0FFF \<and>
   ucast (NN (decode opc)) = opc AND 0x00FF \<and>
   ucast (N (decode opc)) = opc AND 0x000F \<and>
   ucast (X (decode opc)) = drop_bit 8 opc AND 0xF \<and>
   ucast (Y (decode opc)) = drop_bit 4 opc AND 0xF \<and>
   NN (decode (make_opcode hi lo)) = lo \<and>
   N (decode (make_opcode hi lo)) = lo AND 0xF \<and>
   X (decode (make_opcode hi lo)) = hi AND 0xF \<and>
   Y (decode (make_opcode hi lo)) = drop_bit 4 lo"
  using unat_make_opcode[of hi lo] make_opcode_surj[of opc]
    decode_NN[of opc] decode_N[of opc] decode_X[of opc] decode_Y[of opc]
    decode_bytes_NN[of hi lo] decode_bytes_N[of hi lo] decode_bytes_X[of hi lo]
    decode_bytes_Y[of hi lo]
  by (simp add: decode_def)

lemma fetch_Inr:
  "unat (PC c) + 1 < ram_size \<Longrightarrow>
   fetch c = Inr (make_opcode (ram c (unat (PC c))) (ram c (unat (PC c) + 1)))"
  by (simp add: fetch_def ram_read_def)

lemma fetch_InrD:
  "fetch c = Inr opc \<Longrightarrow>
   unat (PC c) + 1 < ram_size \<and>
   opc = make_opcode (ram c (unat (PC c))) (ram c (unat (PC c) + 1))"
  by (auto simp: fetch_def ram_read_def split: if_splits)

lemma fetch_pc_step: "fetch c = Inr opc \<Longrightarrow> unat (PC c + 2) = unat (PC c) + 2"
  by (drule fetch_InrD) (simp add: ram_size_def unat_word_ariths)

lemma decode_opcode: "opcode (decode opc) = opc"
  by (simp add: decode_def)

lemma low_byte: "(NN (decode opc) = v) = (opc AND 0xFF = ucast v)"
proof
  assume "NN (decode opc) = v"
  then show "opc AND 0xFF = ucast v" using decode_NN[of opc] by simp
next
  assume "opc AND 0xFF = ucast v"
  then have "ucast (NN (decode opc)) = (ucast v :: 16 word)" using decode_NN[of opc] by simp
  then have "unat (NN (decode opc)) = unat v"
    by (metis unat_u8_u16)
  then show "NN (decode opc) = v" by (simp add: word_unat_eq_iff)
qed

section \<open>One instruction, opcode by opcode\<close>

lemma emulate_fetch:
  "fetch c = Inr opc \<Longrightarrow>
   emulate_instruction c cfg = emulate_opcode (c\<lparr>PC := PC c + 2, inst := decode opc\<rparr>) cfg"
  by (simp add: emulate_instruction_def)

lemmas emu = emulate_fetch emulate_opcode_def decode_opcode Let_def

lemma emulate_load:
  assumes "fetch c = Inr opc" "drop_bit 12 opc AND 0x0F = 6"
  shows "emulate_instruction c cfg =
    Inr (c\<lparr>PC := PC c + 2, inst := decode opc,
           V := (V c)(unat (X (decode opc)) := NN (decode opc))\<rparr>)"
  using assms decode_X_less[of opc]
  by (simp add: emu reg_write_def)

lemma emulate_add:
  assumes "fetch c = Inr opc" "drop_bit 12 opc AND 0x0F = 7"
  shows "emulate_instruction c cfg =
    Inr (c\<lparr>PC := PC c + 2, inst := decode opc,
           V := (V c)(unat (X (decode opc)) := V c (unat (X (decode opc))) + NN (decode opc))\<rparr>)"
  using assms decode_X_less[of opc]
  by (simp add: emu reg_write_def reg_read_def)

lemma emulate_jump:
  assumes "fetch c = Inr opc" "drop_bit 12 opc AND 0x0F = 1"
  shows "emulate_instruction c cfg = Inr (c\<lparr>PC := NNN (decode opc), inst := decode opc\<rparr>)"
  using assms by (simp add: emu)

lemma emulate_index:
  assumes "fetch c = Inr opc" "drop_bit 12 opc AND 0x0F = 0xA"
  shows "emulate_instruction c cfg =
    Inr (c\<lparr>PC := PC c + 2, inst := decode opc, I := NNN (decode opc)\<rparr>)"
  using assms by (simp add: emu)

lemma emulate_call:
  assumes "fetch c = Inr opc" "drop_bit 12 opc AND 0x0F = 2"
  shows "emulate_instruction c cfg =
    (if stack_ptr c < stack_size
     then Inr (c\<lparr>PC := NNN (decode opc), inst := decode opc,
                 stack := (stack c)(stack_ptr c := PC c + 2), stack_ptr := stack_ptr c + 1\<rparr>)
     else Inl StackOutOfBounds)"
  using assms by (simp add: emu stack_push_def)

lemma emulate_return:
  assumes "fetch c = Inr opc" "drop_bit 12 opc AND 0x0F = 0" "NN (decode opc) = 0xEE"
  shows "emulate_instruction c cfg =
    (if 0 < stack_ptr c \<and> stack_ptr c \<le> stack_size
     then Inr (c\<lparr>PC := stack c (stack_ptr c - 1), inst := decode opc,
                 stack_ptr := stack_ptr c - 1\<rparr>)
     else Inl StackOutOfBounds)"
  using assms by (auto simp add: emu stack_pop_def stack_size_def)

lemma emulate_clear:
  assumes "fetch c = Inr opc" "drop_bit 12 opc AND 0x0F = 0" "NN (decode opc) = 0xE0"
  shows "emulate_instruction c cfg =
    Inr (c\<lparr>PC := PC c + 2, inst := decode opc,
           display := (\<lambda>p. if p < display_size then False else display c p)\<rparr>)"
  using assms by (simp add: emu)

lemma emulate_other:
  assumes "fetch c = Inr opc"
    and "drop_bit 12 opc AND 0x0F \<notin> {1, 2, 6, 7, 0xA, 0xD}"
    and "drop_bit 12 opc AND 0x0F = 0 \<longrightarrow> NN (decode opc) \<noteq> 0xE0 \<and> NN (decode opc) \<noteq> 0xEE"
  shows "emulate_instruction c cfg = Inr (c\<lparr>PC := PC c + 2, inst := decode opc\<rparr>)"
  using assms by (simp add: emu)

section \<open>The machine \<^verbatim>\<open>main\<close> starts from\<close>

lemma length_font: "length font = 80"
  by (simp add: font_def)

lemma init_chip8_ok:
  assumes "rom \<noteq> []" "length rom \<le> 3584"
  shows "init_chip8 c name (Some rom) =
    (True, c\<lparr>ram := memcpy_ram (memcpy_ram (ram c) 0 font) 0x200 rom,
             state := RUNNING, PC := 0x200, rom_name := name, stack_ptr := 0\<rparr>)"
  using assms by (simp add: init_chip8_def Let_def ram_size_def)

lemma boot_fields:
  assumes "rom \<noteq> []" "length rom \<le> 3584"
  shows "PC (boot rom) = 0x200" "I (boot rom) = 0" "stack_ptr (boot rom) = 0"
    "V (boot rom) = (\<lambda>r. 0)" "display (boot rom) = (\<lambda>p. False)" "stack (boot rom) = (\<lambda>s. 0)"
    "ram (boot rom) a = (if 512 \<le> a \<and> a < 512 + length rom then rom ! (a - 512)
                         else if a < 80 then font ! a else 0)"
  using assms by (simp_all add: boot_def init_chip8_ok chip8_zero_def memcpy_ram_def length_font)

lemma reachable_boot: "rom \<noteq> [] \<Longrightarrow> length rom \<le> 3584 \<Longrightarrow> reachable (boot rom)"
  by (rule reachable.start[of "[]" "Some rom"]) (simp add: boot_def init_chip8_ok)

section \<open>Add immediate\<close>

text \<open>
  Claim C5. Whatever the register index \<open>X\<close> and the two bytes are, an instruction whose
  opcode is \<^verbatim>\<open>7XNN\<close> is executed without fault and leaves \<open>(V[X] + NN) mod 256\<close> in \<^verbatim>\<open>V[X]\<close>;
  every other register keeps its value, and so does \<^verbatim>\<open>V[15]\<close> unless \<open>X\<close> is 15.
\<close>

theorem add_immediate_wraps:
  assumes "fetch c = Inr opc" and "drop_bit 12 opc AND 0x0F = 7"
  shows "\<exists>c'. emulate_instruction c cfg = Inr c' \<and>
    unat (V c' (unat (X (decode opc)))) =
      (unat (V c (unat (X (decode opc)))) + unat (NN (decode opc))) mod 256 \<and>
    (\<forall>r. r \<noteq> unat (X (decode opc)) \<longrightarrow> V c' r = V c r) \<and>
    (unat (X (decode opc)) \<noteq> 15 \<longrightarrow> V c' 15 = V c 15)"
  using emulate_add[OF assms, of cfg] by (simp add: unat_word_ariths)

text \<open>With 250 in \<^verbatim>\<open>V[0]\<close>, \<^verbatim>\<open>700A\<close> leaves 4 there, and \<^verbatim>\<open>V[15]\<close> as it was.\<close>

theorem add_immediate_wraps_witness:
  "fetch add_example = Inr 0x700A \<and> drop_bit 12 (0x700A :: 16 word) AND 0x0F = 7 \<and>
   (\<exists>c'. emulate_instruction add_example default_config = Inr c' \<and>
      V add_example 0 = 250 \<and> NN (decode 0x700A) = 10 \<and> V c' 0 = 4 \<and>
      V c' 15 = V add_example 15)"
proof -
  have f: "fetch add_example = Inr 0x700A"
    by (simp add: add_example_def fetch_Inr boot_fields ram_size_def make_opcode_def)
  have s: "drop_bit 12 (0x700A :: 16 word) AND 0x0F = 7" by simp
  have d: "X (decode 0x700A) = 0" "NN (decode 0x700A) = 10" by (simp_all add: decode_def)
  have v: "V add_example 0 = 250" by (simp add: add_example_def)
  from add_immediate_wraps[OF f s, of default_config] f s d v show ?thesis
    by (auto simp add: word_unat_eq_iff)
qed

section \<open>Opcodes without a case\<close>

text \<open>
  Claim C6. An instruction whose opcode has a top nibble other than 1, 2, 6, 7, A and D, and
  for the top nibble 0 a low byte other than \<^verbatim>\<open>E0\<close> and \<^verbatim>\<open>EE\<close>, is executed without fault; it
  adds 2 to the program counter, stores the decoded instruction, and leaves the registers, the
  index register, the memory, the call stack and the display as they were.
\<close>

theorem unimplemented_opcode_is_nop:
  assumes "fetch c = Inr opc"
    and "drop_bit 12 opc AND 0x0F \<notin> {1, 2, 6, 7, 0xA, 0xD}"
    and "drop_bit 12 opc AND 0x0F = 0 \<longrightarrow> opc AND 0x00FF \<noteq> 0xE0 \<and> opc AND 0x00FF \<noteq> 0xEE"
  shows "\<exists>c'. emulate_instruction c cfg = Inr c' \<and>
    unat (PC c') = unat (PC c) + 2 \<and>
    V c' = V c \<and> I c' = I c \<and> ram c' = ram c \<and> stack c' = stack c \<and>
    stack_ptr c' = stack_ptr c \<and> display c' = display c \<and>
    c' = c\<lparr>PC := PC c + 2, inst := decode opc\<rparr>"
proof -
  from assms(3) have "drop_bit 12 opc AND 0x0F = 0 \<longrightarrow>
      NN (decode opc) \<noteq> 0xE0 \<and> NN (decode opc) \<noteq> 0xEE"
    by (simp add: low_byte)
  from emulate_other[OF assms(1,2) this, of cfg] fetch_pc_step[OF assms(1)]
  show ?thesis by simp
qed

text \<open>\<^verbatim>\<open>3012\<close> as the first instruction only moves the program counter to \<^verbatim>\<open>0x202\<close>.\<close>

theorem unimplemented_opcode_is_nop_witness:
  "fetch nop_example = Inr 0x3012 \<and>
   drop_bit 12 (0x3012 :: 16 word) AND 0x0F \<notin> {1, 2, 6, 7, 0xA, 0xD} \<and>
   PC nop_example = 0x200 \<and>
   emulate_instruction nop_example default_config =
     Inr (nop_example\<lparr>PC := 0x202, inst := decode 0x3012\<rparr>)"
proof -
  have f: "fetch nop_example = Inr 0x3012"
    by (simp add: nop_example_def fetch_Inr boot_fields ram_size_def make_opcode_def)
  have s: "drop_bit 12 (0x3012 :: 16 word) AND 0x0F \<notin> {1, 2, 6, 7, 0xA, 0xD}" by simp
  have z: "drop_bit 12 (0x3012 :: 16 word) AND 0x0F = 0 \<longrightarrow>
    (0x3012 :: 16 word) AND 0x00FF \<noteq> 0xE0 \<and> (0x3012 :: 16 word) AND 0x00FF \<noteq> 0xEE" by simp
  have p: "PC nop_example = 0x200" by (simp add: nop_example_def boot_fields)
  from unimplemented_opcode_is_nop[OF f s z, of default_config] f s p show ?thesis
    by auto
qed

section \<open>Call and return\<close>

text \<open>
  Claim C3. From a machine with program counter \<open>p\<close> and fewer than 12 entries on the stack,
  an instruction whose opcode is \<^verbatim>\<open>2NNN\<close> is executed without fault and jumps to \<open>NNN\<close>; if
  the opcode found there is \<^verbatim>\<open>00EE\<close>, the next instruction is executed without fault too
  and leaves the program counter at \<open>p + 2\<close> and the stack as deep as it was.
\<close>

theorem call_return_round_trip:
  assumes "fetch c = Inr opc" and "drop_bit 12 opc AND 0x0F = 2" and "stack_ptr c < stack_size"
  shows "\<exists>c1. emulate_instruction c cfg = Inr c1 \<and> PC c1 = NNN (decode opc) \<and>
    (fetch c1 = Inr 0x00EE \<longrightarrow>
      (\<exists>c2. emulate_instruction c1 cfg = Inr c2 \<and> PC c2 = PC c + 2 \<and>
         unat (PC c2) = unat (PC c) + 2 \<and> stack_ptr c2 = stack_ptr c))"
proof -
  let ?c1 = "c\<lparr>PC := NNN (decode opc), inst := decode opc,
                stack := (stack c)(stack_ptr c := PC c + 2), stack_ptr := stack_ptr c + 1\<rparr>"
  have 1: "emulate_instruction c cfg = Inr ?c1"
    using emulate_call[OF assms(1,2), of cfg] assms(3) by simp
  have 2: "\<exists>c2. emulate_instruction ?c1 cfg = Inr c2 \<and> PC c2 = PC c + 2 \<and>
         unat (PC c2) = unat (PC c) + 2 \<and> stack_ptr c2 = stack_ptr c" if f: "fetch ?c1 = Inr 0x00EE"
  proof -
    have "drop_bit 12 (0x00EE :: 16 word) AND 0x0F = 0" "NN (decode 0x00EE) = 0xEE"
      by (simp_all add: decode_def)
    from emulate_return[OF f this, of cfg] assms(3) fetch_pc_step[OF assms(1)]
    show ?thesis by simp
  qed
  from 1 2 show ?thesis by simp
qed

text \<open>The call at \<^verbatim>\<open>0x200\<close> of a subroutine that returns at once comes back to \<^verbatim>\<open>0x202\<close>.\<close>

theorem call_return_round_trip_witness:
  "fetch call_example = Inr 0x2204 \<and> drop_bit 12 (0x2204 :: 16 word) AND 0x0F = 2 \<and>
   stack_ptr call_example < stack_size \<and> PC call_example = 0x200 \<and>
   (\<exists>c1 c2. emulate_instruction call_example default_config = Inr c1 \<and>
      fetch c1 = Inr 0x00EE \<and> emulate_instruction c1 default_config = Inr c2 \<and> PC c2 = 0x202)"
proof -
  have f: "fetch call_example = Inr 0x2204"
    by (simp add: call_example_def fetch_Inr boot_fields ram_size_def make_opcode_def)
  have s: "drop_bit 12 (0x2204 :: 16 word) AND 0x0F = 2" by simp
  have p: "stack_ptr call_example < stack_size" "PC call_example = 0x200"
    by (simp_all add: call_example_def boot_fields stack_size_def)
  from call_return_round_trip[OF f s p(1), of default_config]
  obtain c1 where c1: "emulate_instruction call_example default_config = Inr c1"
      "PC c1 = NNN (decode 0x2204)"
    and r: "fetch c1 = Inr 0x00EE \<longrightarrow>
      (\<exists>c2. emulate_instruction c1 default_config = Inr c2 \<and> PC c2 = PC call_example + 2)"
    by auto
  have "ram c1 = ram call_example"
    using c1(1) emulate_call[OF f s, of default_config] p(1) by auto
  with c1(2) have "fetch c1 = Inr 0x00EE"
    by (simp add: call_example_def fetch_Inr boot_fields ram_size_def make_opcode_def decode_def)
  with r c1 f s p show ?thesis by auto
qed

lemma fetch_cong: "PC c' = PC c \<Longrightarrow> ram c' = ram c \<Longrightarrow> fetch c' = fetch c"
  by (simp add: fetch_def ram_read_def)

lemma call_loop:
  "fetch c = Inr 0x2200 \<Longrightarrow> PC c = 0x200 \<Longrightarrow> stack_ptr c + k \<le> stack_size \<Longrightarrow>
   \<exists>c'. cycles k c = Inr c' \<and> fetch c' = Inr 0x2200 \<and> PC c' = 0x200 \<and>
        stack_ptr c' = stack_ptr c + k"
proof (induction k arbitrary: c)
  case 0
  then show ?case by simp
next
  case (Suc k)
  let ?c1 = "c\<lparr>PC := NNN (decode 0x2200), inst := decode 0x2200,
                stack := (stack c)(stack_ptr c := PC c + 2), stack_ptr := stack_ptr c + 1\<rparr>"
  have s: "drop_bit 12 (0x2200 :: 16 word) AND 0x0F = 2" by simp
  have 1: "emulate_instruction c default_config = Inr ?c1"
    using emulate_call[OF Suc.prems(1) s, of default_config] Suc.prems(3) by simp
  have n: "NNN (decode 0x2200) = 0x200" by (simp add: decode_def)
  have "fetch ?c1 = fetch c"
    by (rule fetch_cong) (simp_all add: n Suc.prems(2))
  with Suc.prems have "fetch ?c1 = Inr 0x2200" "PC ?c1 = 0x200" "stack_ptr ?c1 + k \<le> stack_size"
    by (simp_all add: n)
  from Suc.IH[OF this] 1 show ?case by simp
qed

text \<open>
  Claim C8. Nothing checks the stack pointer: \<^verbatim>\<open>00EE\<close> on an empty stack reads the entry
  before \<^verbatim>\<open>stack[0]\<close> and \<^verbatim>\<open>2NNN\<close> on a stack of 12 return addresses writes
  \<^verbatim>\<open>stack[12]\<close>; both are accesses outside the array, whatever else the machine holds.
\<close>

theorem stack_access_unchecked:
  "(fetch c = Inr 0x00EE \<and> stack_ptr c = 0 \<longrightarrow>
      emulate_instruction c cfg = Inl StackOutOfBounds) \<and>
   (fetch c = Inr opc \<and> drop_bit 12 opc AND 0x0F = 2 \<and> stack_ptr c = stack_size \<longrightarrow>
      emulate_instruction c cfg = Inl StackOutOfBounds)"
proof -
  have "drop_bit 12 (0x00EE :: 16 word) AND 0x0F = 0" "NN (decode 0x00EE) = 0xEE"
    by (simp_all add: decode_def)
  then have "emulate_instruction c cfg = Inl StackOutOfBounds"
    if "fetch c = Inr 0x00EE" "stack_ptr c = 0"
    using emulate_return[OF that(1), of cfg] that(2) by simp
  moreover have "emulate_instruction c cfg = Inl StackOutOfBounds"
    if "fetch c = Inr opc" "drop_bit 12 opc AND 0x0F = 2" "stack_ptr c = stack_size"
    using emulate_call[OF that(1,2), of cfg] that(3) by simp
  ultimately show ?thesis by blast
qed

text \<open>
  Both happen in machines \<^verbatim>\<open>main\<close> can reach: a program that starts with \<^verbatim>\<open>00EE\<close>, and the
  thirteenth call of a program that calls itself.
\<close>

theorem stack_access_unchecked_witness:
  "reachable return_example \<and> fetch return_example = Inr 0x00EE \<and>
   stack_ptr return_example = 0 \<and>
   emulate_instruction return_example default_config = Inl StackOutOfBounds \<and>
   reachable call_loop_example \<and>
   (\<exists>c. cycles 12 call_loop_example = Inr c \<and> fetch c = Inr 0x2200 \<and>
      drop_bit 12 (0x2200 :: 16 word) AND 0x0F = 2 \<and> stack_ptr c = stack_size \<and>
      emulate_instruction c default_config = Inl StackOutOfBounds)"
proof -
  have r: "reachable return_example" "reachable call_loop_example"
    by (simp_all add: return_example_def call_loop_example_def reachable_boot)
  have f: "fetch return_example = Inr 0x00EE" "stack_ptr return_example = 0"
    by (simp_all add: return_example_def fetch_Inr boot_fields ram_size_def make_opcode_def)
  have g: "fetch call_loop_example = Inr 0x2200" "PC call_loop_example = 0x200"
    "stack_ptr call_loop_example + 12 \<le> stack_size"
    by (simp_all add: call_loop_example_def fetch_Inr boot_fields ram_size_def make_opcode_def
        stack_size_def)
  from call_loop[OF g] obtain c where c: "cycles 12 call_loop_example = Inr c"
    "fetch c = Inr 0x2200" "stack_ptr c = stack_size"
    using g(3) by (auto simp add: call_loop_example_def boot_fields stack_size_def)
  have s: "drop_bit 12 (0x2200 :: 16 word) AND 0x0F = 2" by simp
  from stack_access_unchecked[of return_example default_config "0x2200"]
    stack_access_unchecked[of c default_config "0x2200"] r f c s
  show ?thesis by auto
qed

section \<open>Sprite rows on the 64 by 32 display\<close>

lemma default_window: "window_width default_config = 64" "window_height default_config = 32"
  by (simp_all add: default_config_def set_config_from_args_def)

declare draw_sprite_row.simps [simp del]

lemma draw_sprite_row_step:
  assumes "x < 64" "y < 32"
  shows "draw_sprite_row default_config sd y (Suc j) x c =
    (let c2 = c\<lparr>V := (if bit sd j \<and> display c (y * 64 + x) then (V c)(15 := 1) else V c),
                 display := (display c)(y * 64 + x := (display c (y * 64 + x) \<noteq> bit sd j))\<rparr>
     in if x + 1 < 64 then draw_sprite_row default_config sd y j (x + 1) c2 else Inr c2)"
proof -
  have p: "(y * 64 + x) mod 2 ^ 32 = y * 64 + x" "y * 64 + x < display_size"
    "(x + 1) mod 256 = x + 1"
    using assms by (simp_all add: display_size_def)
  show ?thesis
    by (simp only: draw_sprite_row.simps default_window p Let_def not_not if_True if_False)
       (simp add: not_le)
qed

lemma draw_sprite_row_frame:
  assumes "x < 64" "y < 32"
  shows "\<exists>c'. draw_sprite_row default_config sd y k x c = Inr c' \<and>
           c' = c\<lparr>V := V c', display := display c'\<rparr>"
  using assms
proof (induction k arbitrary: x c)
  case 0
  then show ?case by (auto simp add: draw_sprite_row.simps)
next
  case (Suc j)
  let ?c2 = "c\<lparr>V := (if bit sd j \<and> display c (y * 64 + x) then (V c)(15 := 1) else V c),
                 display := (display c)(y * 64 + x := (display c (y * 64 + x) \<noteq> bit sd j))\<rparr>"
  show ?case
  proof (cases "x + 1 < 64")
    case True
    from Suc.IH[OF True Suc.prems(2), of ?c2] obtain c' where
      c': "draw_sprite_row default_config sd y j (x + 1) ?c2 = Inr c'"
        "c' = ?c2\<lparr>V := V c', display := display c'\<rparr>" by blast
    from c'(2) have "c' = c\<lparr>V := V c', display := display c'\<rparr>" by simp
    with c'(1) True show ?thesis
      by (simp add: draw_sprite_row_step[OF Suc.prems] Let_def)
  next
    case False
    then show ?thesis
      by (simp add: draw_sprite_row_step[OF Suc.prems] Let_def)
  qed
qed

lemma draw_sprite_row_display:
  assumes "x < 64" "y < 32" "draw_sprite_row default_config sd y k x c = Inr c'"
  shows "display c' p =
    (if y * 64 + x \<le> p \<and> p < y * 64 + x + k \<and> p < y * 64 + 64
     then (display c p \<noteq> bit sd (k - 1 - (p - (y * 64 + x)))) else display c p)"
  using assms
proof (induction k arbitrary: x c)
  case 0
  then show ?case by (auto simp add: draw_sprite_row.simps)
next
  case (Suc j)
  let ?c2 = "c\<lparr>V := (if bit sd j \<and> display c (y * 64 + x) then (V c)(15 := 1) else V c),
                 display := (display c)(y * 64 + x := (display c (y * 64 + x) \<noteq> bit sd j))\<rparr>"
  show ?case
  proof (cases "x + 1 < 64")
    case True
    with Suc.prems have r: "draw_sprite_row default_config sd y j (x + 1) ?c2 = Inr c'"
      by (simp add: draw_sprite_row_step Let_def)
    note ih = Suc.IH[OF True Suc.prems(2) r]
    show ?thesis
    proof (cases "p = y * 64 + x")
      case True
      then show ?thesis using ih \<open>x + 1 < 64\<close> by simp
    next
      case False
      have "j - 1 - (p - (y * 64 + (x + 1))) = Suc j - 1 - (p - (y * 64 + x))"
        if "y * 64 + (x + 1) \<le> p" using that by simp
      with False show ?thesis using ih \<open>x + 1 < 64\<close> by auto
    qed
  next
    case False
    with Suc.prems have r: "c' = ?c2"
      by (simp add: draw_sprite_row_step Let_def)
    from False Suc.prems(1) have "x = 63" by simp
    then show ?thesis by (auto simp add: r)
  qed
qed

lemma draw_sprite_row_V:
  assumes "x < 64" "y < 32" "draw_sprite_row default_config sd y k x c = Inr c'"
  shows "V c' =
    (if \<exists>b<k. x + b < 64 \<and> bit sd (k - 1 - b) \<and> display c (y * 64 + x + b)
     then (V c)(15 := 1) else V c)"
  using assms
proof (induction k arbitrary: x c)
  case 0
  then show ?case by (auto simp add: draw_sprite_row.simps)
next
  case (Suc j)
  let ?c2 = "c\<lparr>V := (if bit sd j \<and> display c (y * 64 + x) then (V c)(15 := 1) else V c),
                 display := (display c)(y * 64 + x := (display c (y * 64 + x) \<noteq> bit sd j))\<rparr>"
  show ?case
  proof (cases "x + 1 < 64")
    case True
    with Suc.prems have r: "draw_sprite_row default_config sd y j (x + 1) ?c2 = Inr c'"
      by (simp add: draw_sprite_row_step Let_def)
    note ih = Suc.IH[OF True Suc.prems(2) r]
    have e: "(\<exists>b<Suc j. x + b < 64 \<and> bit sd (Suc j - 1 - b) \<and> display c (y * 64 + x + b)) =
      (bit sd j \<and> display c (y * 64 + x) \<or>
       (\<exists>b<j. x + 1 + b < 64 \<and> bit sd (j - 1 - b) \<and> display ?c2 (y * 64 + (x + 1) + b)))"
      using Suc.prems(1) by (simp add: Ex_less_Suc2)
    show ?thesis unfolding e ih by auto
  next
    case False
    with Suc.prems have r: "c' = ?c2"
      by (simp add: draw_sprite_row_step Let_def)
    have e: "(\<exists>b<Suc j. x + b < 64 \<and> bit sd (Suc j - 1 - b) \<and> display c (y * 64 + x + b)) =
      (bit sd j \<and> display c (y * 64 + x))"
      using Suc.prems(1) False by (auto simp add: Ex_less_Suc2)
    show ?thesis unfolding e r by simp
  qed
qed

declare draw_sprite.simps [simp del]

lemma draw_sprite_done: "\<not> i < n \<Longrightarrow> draw_sprite config x n i yc c = Inr c"
  by (simp add: draw_sprite.simps)

lemma draw_sprite_fault:
  "i < n \<Longrightarrow> \<not> unat (I c) + i < ram_size \<Longrightarrow> draw_sprite config x n i yc c = Inl RamOutOfBounds"
  by (simp add: draw_sprite.simps ram_read_def)

lemma draw_sprite_step:
  assumes "yc < 32" "i < n" "unat (I c) + i < ram_size"
    and "draw_sprite_row default_config (ram c (unat (I c) + i)) yc 8 x c = Inr c1"
  shows "draw_sprite default_config x n i yc c =
    (if yc + 1 < 32 then draw_sprite default_config x n (i + 1) (yc + 1) c1 else Inr c1)"
proof -
  have "(yc + 1) mod 256 = yc + 1" using assms(1) by simp
  then show ?thesis
    using assms by (subst draw_sprite.simps) (simp add: ram_read_def default_window not_le)
qed

lemma row_cells:
  fixes x y p k :: nat
  assumes "x < 64"
  shows "(y * 64 + x \<le> p \<and> p < y * 64 + x + k \<and> p < y * 64 + 64) =
         (p div 64 = y \<and> x \<le> p mod 64 \<and> p mod 64 < x + k)"
    and "p div 64 = y \<Longrightarrow> p - (y * 64 + x) = p mod 64 - x"
proof -
  have d: "p div 64 = y" if "y * 64 \<le> p" "p < y * 64 + 64"
    using that by (intro div_nat_eqI) simp_all
  have m: "p = y * 64 + p mod 64" if "p div 64 = y"
    using that mod_div_mult_eq[of p 64] by simp
  show "(y * 64 + x \<le> p \<and> p < y * 64 + x + k \<and> p < y * 64 + 64) =
         (p div 64 = y \<and> x \<le> p mod 64 \<and> p mod 64 < x + k)"
  proof
    assume a: "y * 64 + x \<le> p \<and> p < y * 64 + x + k \<and> p < y * 64 + 64"
    then have "p div 64 = y" using d by simp
    with a m show "p div 64 = y \<and> x \<le> p mod 64 \<and> p mod 64 < x + k" by linarith
  next
    assume a: "p div 64 = y \<and> x \<le> p mod 64 \<and> p mod 64 < x + k"
    have "p mod 64 < 64" by simp
    with a m show "y * 64 + x \<le> p \<and> p < y * 64 + x + k \<and> p < y * 64 + 64" by linarith
  qed
  show "p - (y * 64 + x) = p mod 64 - x" if "p div 64 = y"
    using m[OF that] by linarith
qed

lemma draw_sprite_row_cell:
  assumes "x < 64" "y < 32" "draw_sprite_row default_config sd y k x c = Inr c'"
  shows "display c' p =
    (display c p \<noteq> (p div 64 = y \<and> x \<le> p mod 64 \<and> p mod 64 < x + k \<and>
                      bit sd (k - 1 - (p mod 64 - x))))"
  using draw_sprite_row_display[OF assms, of p] row_cells(1)[OF assms(1), of y p k]
    row_cells(2)[OF assms(1), of p y]
  by auto

lemma draw_sprite_frame:
  assumes "x < 64" "yc < 32"
    and "\<forall>d. d < n - i \<and> yc + d < 32 \<longrightarrow> unat (I c) + i + d < ram_size"
  shows "\<exists>c'. draw_sprite default_config x n i yc c = Inr c' \<and>
           c' = c\<lparr>V := V c', display := display c'\<rparr>"
  using assms
proof (induction m \<equiv> "n - i" arbitrary: i yc c)
  case 0
  then show ?case by (simp add: draw_sprite_done)
next
  case (Suc m)
  then have i: "i < n" "m = n - (i + 1)" by simp_all
  from Suc.prems(3) i(1) Suc.prems(2) have b: "unat (I c) + i < ram_size"
    by (metis add.right_neutral zero_less_diff)
  from draw_sprite_row_frame[OF Suc.prems(1,2), of "ram c (unat (I c) + i)" 8 c]
  obtain c1 where c1: "draw_sprite_row default_config (ram c (unat (I c) + i)) yc 8 x c = Inr c1"
    "c1 = c\<lparr>V := V c1, display := display c1\<rparr>" by blast
  note st = draw_sprite_step[OF Suc.prems(2) i(1) b c1(1)]
  show ?case
  proof (cases "yc + 1 < 32")
    case True
    have I1: "I c1 = I c" by (subst c1(2)) simp
    have "\<forall>d. d < n - (i + 1) \<and> yc + 1 + d < 32 \<longrightarrow> unat (I c1) + (i + 1) + d < ram_size"
    proof (intro allI impI)
      fix d assume "d < n - (i + 1) \<and> yc + 1 + d < 32"
      then have "Suc d < n - i \<and> yc + Suc d < 32" by arith
      with Suc.prems(3) have "unat (I c) + i + Suc d < ram_size" by blast
      then show "unat (I c1) + (i + 1) + d < ram_size" by (simp add: I1)
    qed
    from Suc.hyps(1)[OF i(2) Suc.prems(1) True this]
    obtain c' where c': "draw_sprite default_config x n (i + 1) (yc + 1) c1 = Inr c'"
      "c' = c1\<lparr>V := V c', display := display c'\<rparr>" by blast
    have "c' = c\<lparr>V := V c', display := display c'\<rparr>"
      by (subst c'(2), subst c1(2)) simp
    with c'(1) True st show ?thesis by simp
  next
    case False
    with st c1 show ?thesis by simp
  qed
qed

lemma rows_in_bounds_next:
  assumes "\<forall>d. d < n - i \<and> yc + d < 32 \<longrightarrow> unat (I c) + i + d < ram_size" "I c1 = I c"
  shows "\<forall>d. d < n - (i + 1) \<and> yc + 1 + d < 32 \<longrightarrow> unat (I c1) + (i + 1) + d < ram_size"
proof (intro allI impI)
  fix d assume "d < n - (i + 1) \<and> yc + 1 + d < 32"
  then have "Suc d < n - i \<and> yc + Suc d < 32" by arith
  with assms(1) have "unat (I c) + i + Suc d < ram_size" by blast
  then show "unat (I c1) + (i + 1) + d < ram_size" by (simp add: assms(2))
qed

lemma draw_sprite_row_same:
  assumes "x < 64" "y < 32" "draw_sprite_row default_config sd y k x c = Inr c'"
  shows "I c' = I c" "ram c' = ram c"
proof -
  from draw_sprite_row_frame[OF assms(1,2), of sd k c] assms(3)
  have e: "c' = c\<lparr>V := V c', display := display c'\<rparr>" by simp
  show "I c' = I c" by (subst e) simp
  show "ram c' = ram c" by (subst e) simp
qed

lemma draw_sprite_display:
  assumes "x < 64" "yc < 32" "draw_sprite default_config x n i yc c = Inr c'"
    and "\<forall>d. d < n - i \<and> yc + d < 32 \<longrightarrow> unat (I c) + i + d < ram_size"
  shows "display c' p =
    (display c p \<noteq> (yc \<le> p div 64 \<and> p div 64 < yc + (n - i) \<and> p div 64 < 32 \<and>
                      x \<le> p mod 64 \<and> p mod 64 < x + 8 \<and>
                      bit (ram c (unat (I c) + i + (p div 64 - yc))) (7 - (p mod 64 - x))))"
  using assms
proof (induction m \<equiv> "n - i" arbitrary: i yc c)
  case 0
  then show ?case by (simp add: draw_sprite_done)
next
  case (Suc m)
  then have i: "i < n" "m = n - (i + 1)" by simp_all
  from Suc.prems(4) i(1) Suc.prems(2) have b: "unat (I c) + i < ram_size"
    by (metis add.right_neutral zero_less_diff)
  from draw_sprite_row_frame[OF Suc.prems(1,2), of "ram c (unat (I c) + i)" 8 c]
  obtain c1 where c1: "draw_sprite_row default_config (ram c (unat (I c) + i)) yc 8 x c = Inr c1"
    by blast
  note st = draw_sprite_step[OF Suc.prems(2) i(1) b c1]
  note same = draw_sprite_row_same[OF Suc.prems(1,2) c1]
  define B where "B a = (x \<le> p mod 64 \<and> p mod 64 < x + 8 \<and>
                      bit (ram c a) (7 - (p mod 64 - x)))" for a
  define R where "R = (yc \<le> p div 64 \<and> p div 64 < yc + (n - i) \<and> p div 64 < 32)"
  define a where "a = unat (I c) + i + (p div 64 - yc)"
  define R1 where "R1 = (yc + 1 \<le> p div 64 \<and> p div 64 < yc + 1 + (n - (i + 1)) \<and> p div 64 < 32)"
  define a1 where "a1 = unat (I c) + (i + 1) + (p div 64 - (yc + 1))"
  have row: "display c1 p = (display c p \<noteq> (p div 64 = yc \<and> B (unat (I c) + i)))"
    using draw_sprite_row_cell[OF Suc.prems(1,2) c1, of p] by (simp add: B_def)
  have goal: "?case = (display c' p = (display c p \<noteq> (R \<and> B a)))"
    by (simp only: B_def R_def a_def conj_assoc)
  show ?case unfolding goal
  proof (cases "yc + 1 < 32")
    case True
    with st Suc.prems(3) have r: "draw_sprite default_config x n (i + 1) (yc + 1) c1 = Inr c'"
      by simp
    have ih: "display c' p = (display c1 p \<noteq> (R1 \<and> B a1))"
      using Suc.hyps(1)[OF i(2) Suc.prems(1) True r rows_in_bounds_next[OF Suc.prems(4) same(1)]]
      by (simp only: B_def R1_def a1_def same conj_assoc)
    consider "p div 64 < yc" | "p div 64 = yc" | "yc + 1 \<le> p div 64" by linarith
    then show "display c' p = (display c p \<noteq> (R \<and> B a))"
    proof cases
      case 1
      then have "\<not> R1" "\<not> R" "p div 64 \<noteq> yc" unfolding R_def R1_def by simp_all
      then show ?thesis unfolding ih row by simp
    next
      case 2
      then have "\<not> R1" "R" "a = unat (I c) + i"
        unfolding R_def R1_def a_def using i(1) True by simp_all
      then show ?thesis unfolding ih row using 2 by simp
    next
      case 3
      then have "p div 64 \<noteq> yc" "R1 = R" "a1 = a"
        unfolding R_def R1_def a_def a1_def using i(1) by auto
      then show ?thesis unfolding ih row by simp
    qed
  next
    case False
    with st Suc.prems(3) have r: "c' = c1" by simp
    from False Suc.prems(2) have y31: "yc = 31" by simp
    show "display c' p = (display c p \<noteq> (R \<and> B a))"
    proof (cases "p div 64 = yc")
      case True
      then have "R" "a = unat (I c) + i"
        unfolding R_def a_def using i(1) y31 by simp_all
      then show ?thesis unfolding r row using True by simp
    next
      case False
      then have "\<not> R" unfolding R_def using y31 by auto
      then show ?thesis unfolding r row using False by simp
    qed
  qed
qed

lemma draw_sprite_V:
  assumes "x < 64" "yc < 32" "draw_sprite default_config x n i yc c = Inr c'"
    and "\<forall>d. d < n - i \<and> yc + d < 32 \<longrightarrow> unat (I c) + i + d < ram_size"
  shows "V c' =
    (if \<exists>d<n - i. yc + d < 32 \<and>
          (\<exists>b<8. x + b < 64 \<and> bit (ram c (unat (I c) + i + d)) (7 - b) \<and>
                  display c ((yc + d) * 64 + x + b))
     then (V c)(15 := 1) else V c)"
  using assms
proof (induction m \<equiv> "n - i" arbitrary: i yc c)
  case 0
  then show ?case by (simp add: draw_sprite_done)
next
  case (Suc m)
  then have i: "i < n" "m = n - (i + 1)" "n - i = Suc m" by simp_all
  from Suc.prems(4) i(1) Suc.prems(2) have b: "unat (I c) + i < ram_size"
    by (metis add.right_neutral zero_less_diff)
  from draw_sprite_row_frame[OF Suc.prems(1,2), of "ram c (unat (I c) + i)" 8 c]
  obtain c1 where c1: "draw_sprite_row default_config (ram c (unat (I c) + i)) yc 8 x c = Inr c1"
    by blast
  note st = draw_sprite_step[OF Suc.prems(2) i(1) b c1]
  note same = draw_sprite_row_same[OF Suc.prems(1,2) c1]
  define hit where "hit dsp d = (\<exists>b<8. x + b < 64 \<and> bit (ram c (unat (I c) + i + d)) (7 - b) \<and>
                  dsp ((yc + d) * 64 + x + b))" for dsp d
  have goal: "?case = (V c' = (if \<exists>d<n - i. yc + d < 32 \<and> hit (display c) d
                               then (V c)(15 := 1) else V c))"
    by (simp only: hit_def)
  have rowV: "V c1 = (if hit (display c) 0 then (V c)(15 := 1) else V c)"
    using draw_sprite_row_V[OF Suc.prems(1,2) c1] by (simp add: hit_def)
  have below: "display c1 ((yc + Suc d) * 64 + x + b) = display c ((yc + Suc d) * 64 + x + b)"
    if "x + b < 64" for d b
  proof -
    have "((yc + Suc d) * 64 + x + b) div 64 = yc + Suc d"
      using that by (intro div_nat_eqI) simp_all
    then show ?thesis
      using draw_sprite_row_cell[OF Suc.prems(1,2) c1, of "(yc + Suc d) * 64 + x + b"] by simp
  qed
  have hit_below: "hit (display c1) (Suc d) = hit (display c) (Suc d)" for d
    unfolding hit_def using below by auto
  have split: "(\<exists>d<n - i. yc + d < 32 \<and> hit (display c) d) =
     (hit (display c) 0 \<or> (\<exists>d<m. yc + Suc d < 32 \<and> hit (display c) (Suc d)))"
    unfolding i(3) Ex_less_Suc2 using Suc.prems(2) by simp
  show ?case unfolding goal
  proof (cases "yc + 1 < 32")
    case True
    with st Suc.prems(3) have r: "draw_sprite default_config x n (i + 1) (yc + 1) c1 = Inr c'"
      by simp
    have ih: "V c' = (if \<exists>d<m. yc + Suc d < 32 \<and> hit (display c1) (Suc d)
                      then (V c1)(15 := 1) else V c1)"
      using Suc.hyps(1)[OF i(2) Suc.prems(1) True r rows_in_bounds_next[OF Suc.prems(4) same(1)]]
        i(2)
      by (simp add: same hit_def)
    show "V c' = (if \<exists>d<n - i. yc + d < 32 \<and> hit (display c) d then (V c)(15 := 1) else V c)"
      unfolding split ih hit_below rowV by auto
  next
    case False
    with st Suc.prems(3) have r: "c' = c1" by simp
    have none: "(\<exists>d<m. yc + Suc d < 32 \<and> hit (display c) (Suc d)) = False"
      using False by simp
    show "V c' = (if \<exists>d<n - i. yc + d < 32 \<and> hit (display c) d
                  then (V c)(15 := 1) else V c)"
      unfolding split r rowV none by simp
  qed
qed

section \<open>Drawing a sprite\<close>

lemma emulate_draw:
  assumes "fetch c = Inr opc" "drop_bit 12 opc AND 0x0F = 0xD"
  shows "emulate_instruction c default_config =
     draw_sprite default_config (unat (V c (unat (X (decode opc)))) mod 64)
       (unat (N (decode opc))) 0 (unat (V c (unat (Y (decode opc)))) mod 32)
       (c\<lparr>PC := PC c + 2, inst := decode opc, V := (V c)(15 := 0)\<rparr>)"
proof -
  have m: "(a mod 64) mod 256 = a mod 64" "(a mod 32) mod 256 = a mod 32" for a :: nat
    by (simp_all add: mod_mod_cancel)
  show ?thesis
    using assms decode_X_less[of opc] decode_Y_less[of opc]
    by (simp add: emu draw_def reg_read_def default_window m)
qed

lemma draw_sprite_oob:
  assumes "x < 64" "yc + d < 32" "i + d < n" "\<not> unat (I c) + i + d < ram_size"
  shows "draw_sprite default_config x n i yc c = Inl RamOutOfBounds"
  using assms
proof (induction d arbitrary: i yc c)
  case 0
  then show ?case by (simp add: draw_sprite_fault)
next
  case (Suc d)
  then have i: "i < n" "yc < 32" "yc + 1 < 32" by simp_all
  show ?case
  proof (cases "unat (I c) + i < ram_size")
    case True
    from draw_sprite_row_frame[OF Suc.prems(1) i(2), of "ram c (unat (I c) + i)" 8 c]
    obtain c1 where c1: "draw_sprite_row default_config (ram c (unat (I c) + i)) yc 8 x c = Inr c1"
      by blast
    note same = draw_sprite_row_same[OF Suc.prems(1) i(2) c1]
    have "draw_sprite default_config x n (i + 1) (yc + 1) c1 = Inl RamOutOfBounds"
      using Suc.prems by (intro Suc.IH) (simp_all add: same)
    then show ?thesis
      using draw_sprite_step[OF i(2) i(1) True c1] i(3) by simp
  next
    case False
    then show ?thesis using i(1) by (simp add: draw_sprite_fault)
  qed
qed

lemma bit_0x80: "bit (0x80 :: 8 word) k = (k = 7)"
proof -
  have "(0x80 :: 8 word) = 2 ^ 7" by simp
  then show ?thesis by (simp only: bit_exp_iff) (auto simp add: possible_bit_word)
qed

text \<open>
  Claim C1. Take a \<^verbatim>\<open>DXYN\<close> instruction run on the 64 by 32 display, starting at column
  \<open>x0 = V[X] mod 64\<close> and row \<open>y0 = V[Y] mod 32\<close>, whose sprite rows lie inside the memory.
  It is executed without fault, and it leaves 1 in \<^verbatim>\<open>V[15]\<close> if some sprite bit that is 1 is
  drawn on a cell that is on, and 0 otherwise; the sprite bits drawn are those of the rows and
  columns that stay on the display. No other register changes. For the one-row sprite
  \<^verbatim>\<open>0x80\<close> the flag is 1 exactly when the start cell is on.
\<close>

theorem draw_collision_flag:
  assumes "fetch c = Inr opc" and "drop_bit 12 opc AND 0x0F = 0xD"
    and "x0 = unat (V c (unat (X (decode opc)))) mod 64"
    and "y0 = unat (V c (unat (Y (decode opc)))) mod 32"
    and "\<forall>d. d < unat (N (decode opc)) \<and> y0 + d < 32 \<longrightarrow> unat (I c) + d < ram_size"
  shows "\<exists>c'. emulate_instruction c default_config = Inr c' \<and>
    V c' 15 =
      (if \<exists>d<unat (N (decode opc)). y0 + d < 32 \<and>
            (\<exists>b<8. x0 + b < 64 \<and> bit (ram c (unat (I c) + d)) (7 - b) \<and>
                    display c ((y0 + d) * 64 + x0 + b))
       then 1 else 0) \<and>
    (\<forall>r. r \<noteq> 15 \<longrightarrow> V c' r = V c r) \<and>
    (unat (N (decode opc)) = 1 \<and> ram c (unat (I c)) = 0x80 \<longrightarrow>
       V c' 15 = (if display c (y0 * 64 + x0) then 1 else 0))"
proof -
  let ?c0 = "c\<lparr>PC := PC c + 2, inst := decode opc, V := (V c)(15 := 0)\<rparr>"
  let ?n = "unat (N (decode opc))"
  have xy: "x0 < 64" "y0 < 32" using assms(3,4) by simp_all
  have bnd: "\<forall>d. d < ?n - 0 \<and> y0 + d < 32 \<longrightarrow> unat (I ?c0) + 0 + d < ram_size"
    using assms(5) by simp
  from draw_sprite_frame[OF xy bnd] obtain c' where
    c': "draw_sprite default_config x0 ?n 0 y0 ?c0 = Inr c'" by blast
  have e: "emulate_instruction c default_config = Inr c'"
    using emulate_draw[OF assms(1,2)] c' assms(3,4) by simp
  define hit where "hit = (\<exists>d<?n. y0 + d < 32 \<and>
            (\<exists>b<8. x0 + b < 64 \<and> bit (ram c (unat (I c) + d)) (7 - b) \<and>
                    display c ((y0 + d) * 64 + x0 + b)))"
  have raw: "V c' = (if hit then (V ?c0)(15 := 1) else V ?c0)"
    using draw_sprite_V[OF xy c' bnd] unfolding hit_def by simp
  have v: "V c' = (if hit then (V c)(15 := 1) else (V c)(15 := 0))"
    unfolding raw by simp
  have one: "hit = display c (y0 * 64 + x0)" if "?n = 1" "ram c (unat (I c)) = 0x80"
  proof -
    have b80: "bit (ram c (unat (I c))) k = (k = 7)" for k
      unfolding that(2) by (rule bit_0x80)
    have "hit = (\<exists>b<8. x0 + b < 64 \<and> 7 - b = (7::nat) \<and> display c (y0 * 64 + x0 + b))"
      unfolding hit_def using that(1) xy(2) by (simp add: b80)
    also have "\<dots> = display c (y0 * 64 + x0)"
    proof
      assume "\<exists>b<8. x0 + b < 64 \<and> 7 - b = (7::nat) \<and> display c (y0 * 64 + x0 + b)"
      then obtain b where b: "b < 8" "7 - b = 7" "display c (y0 * 64 + x0 + b)" by blast
      from b(1,2) have "b = 0" by arith
      with b(3) show "display c (y0 * 64 + x0)" by simp
    next
      assume "display c (y0 * 64 + x0)"
      then show "\<exists>b<8. x0 + b < 64 \<and> 7 - b = (7::nat) \<and> display c (y0 * 64 + x0 + b)"
        using xy(1) by (intro exI[of _ 0]) simp
    qed
    finally show ?thesis .
  qed
  have "V c' 15 = (if hit then 1 else 0)" "\<forall>r. r \<noteq> 15 \<longrightarrow> V c' r = V c r"
    "?n = 1 \<and> ram c (unat (I c)) = 0x80 \<longrightarrow> V c' 15 = (if display c (y0 * 64 + x0) then 1 else 0)"
    using one by (simp_all add: v)
  with e show ?thesis unfolding hit_def by blast
qed

text \<open>
  Claim C2. The same instruction changes the display as follows: the cell in row \<open>row\<close> and
  column \<open>col\<close> is toggled exactly when \<open>y0 \<le> row < y0 + N\<close>, \<open>x0 \<le> col < x0 + 8\<close> and bit
  \<open>7 - (col - x0)\<close> of the sprite byte of that row is 1, the most significant bit being the
  leftmost. Rows and columns are not reduced modulo 32 and 64: what would fall right of column
  63 or below row 31 is not drawn, and no cell left of \<open>x0\<close> or above \<open>y0\<close> changes.
\<close>

theorem draw_clips:
  assumes "fetch c = Inr opc" and "drop_bit 12 opc AND 0x0F = 0xD"
    and "x0 = unat (V c (unat (X (decode opc)))) mod 64"
    and "y0 = unat (V c (unat (Y (decode opc)))) mod 32"
    and "\<forall>d. d < unat (N (decode opc)) \<and> y0 + d < 32 \<longrightarrow> unat (I c) + d < ram_size"
  shows "\<exists>c'. emulate_instruction c default_config = Inr c' \<and>
    (\<forall>row col. row < 32 \<and> col < 64 \<longrightarrow>
       display c' (row * 64 + col) =
         (display c (row * 64 + col) \<noteq>
            (y0 \<le> row \<and> row < y0 + unat (N (decode opc)) \<and> x0 \<le> col \<and> col < x0 + 8 \<and>
             bit (ram c (unat (I c) + (row - y0))) (7 - (col - x0))))) \<and>
    (\<forall>p. display_size \<le> p \<longrightarrow> display c' p = display c p)"
proof -
  let ?c0 = "c\<lparr>PC := PC c + 2, inst := decode opc, V := (V c)(15 := 0)\<rparr>"
  let ?n = "unat (N (decode opc))"
  have xy: "x0 < 64" "y0 < 32" using assms(3,4) by simp_all
  have bnd: "\<forall>d. d < ?n - 0 \<and> y0 + d < 32 \<longrightarrow> unat (I ?c0) + 0 + d < ram_size"
    using assms(5) by simp
  from draw_sprite_frame[OF xy bnd] obtain c' where
    c': "draw_sprite default_config x0 ?n 0 y0 ?c0 = Inr c'" by blast
  have e: "emulate_instruction c default_config = Inr c'"
    using emulate_draw[OF assms(1,2)] c' assms(3,4) by simp
  note dsp = draw_sprite_display[OF xy c' bnd]
  have cells: "display c' (row * 64 + col) =
         (display c (row * 64 + col) \<noteq>
            (y0 \<le> row \<and> row < y0 + ?n \<and> x0 \<le> col \<and> col < x0 + 8 \<and>
             bit (ram c (unat (I c) + (row - y0))) (7 - (col - x0))))"
    if "row < 32" "col < 64" for row col
  proof -
    have "(row * 64 + col) div 64 = row" "(row * 64 + col) mod 64 = col"
      using that(2) by simp_all
    then show ?thesis using dsp[of "row * 64 + col"] that(1) by auto
  qed
  have out: "display c' p = display c p" if "display_size \<le> p" for p
  proof -
    have "\<not> p div 64 < 32" using that by (simp add: display_size_def)
    then show ?thesis using dsp[of p] by simp
  qed
  from e cells out show ?thesis by blast
qed

text \<open>
  Claim C10. Nothing checks the address of a sprite row and nothing reduces it modulo 4096: a
  \<^verbatim>\<open>DXYN\<close> instruction that has a row \<open>d < N\<close> on the display (\<open>y0 + d < 32\<close>) whose address
  \<open>I + d\<close> is 4096 or more reads outside the memory.
\<close>

theorem sprite_read_unchecked:
  assumes "fetch c = Inr opc" and "drop_bit 12 opc AND 0x0F = 0xD"
    and "y0 = unat (V c (unat (Y (decode opc)))) mod 32"
    and "d < unat (N (decode opc))" and "y0 + d < 32" and "ram_size \<le> unat (I c) + d"
  shows "emulate_instruction c default_config = Inl RamOutOfBounds"
proof -
  let ?c0 = "c\<lparr>PC := PC c + 2, inst := decode opc, V := (V c)(15 := 0)\<rparr>"
  have "draw_sprite default_config (unat (V c (unat (X (decode opc)))) mod 64)
       (unat (N (decode opc))) 0 y0 ?c0 = Inl RamOutOfBounds"
    using assms(4,5,6) by (intro draw_sprite_oob[where d = d]) simp_all
  then show ?thesis using emulate_draw[OF assms(1,2)] assms(3) by simp
qed

lemma decode_D011: "X (decode 0xD011) = 0" "Y (decode 0xD011) = 1" "N (decode 0xD011) = 1"
  "drop_bit 12 (0xD011 :: 16 word) AND 0x0F = 0xD"
  by (simp_all add: decode_def)

lemma bit_0xFF: "bit (0xFF :: 8 word) k = (k < 8)"
  unfolding mask_0xFF by (simp add: bit_mask_iff)

text \<open>
  \<^verbatim>\<open>0x80\<close> drawn on the top left cell: the flag is 1 when the cell is on, 0 when it is off.
\<close>

theorem draw_collision_flag_witness:
  "fetch collision_example = Inr 0xD011 \<and> unat (N (decode 0xD011)) = 1 \<and>
   ram collision_example (unat (I collision_example)) = 0x80 \<and>
   display collision_example 0 \<and>
   (\<exists>c'. emulate_instruction collision_example default_config = Inr c' \<and> V c' 15 = 1) \<and>
   fetch no_collision_example = Inr 0xD011 \<and>
   ram no_collision_example (unat (I no_collision_example)) = 0x80 \<and>
   \<not> display no_collision_example 0 \<and>
   (\<exists>c'. emulate_instruction no_collision_example default_config = Inr c' \<and> V c' 15 = 0)"
proof -
  have on: "fetch collision_example = Inr 0xD011"
    "ram collision_example (unat (I collision_example)) = 0x80"
    "display collision_example 0"
    "0 = unat (V collision_example (unat (X (decode 0xD011)))) mod 64"
    "0 = unat (V collision_example (unat (Y (decode 0xD011)))) mod 32"
    "\<forall>d. d < unat (N (decode 0xD011)) \<and> 0 + d < 32 \<longrightarrow>
         unat (I collision_example) + d < ram_size"
    by (simp_all add: collision_example_def fetch_Inr boot_fields ram_size_def make_opcode_def
        decode_D011)
  have off: "fetch no_collision_example = Inr 0xD011"
    "ram no_collision_example (unat (I no_collision_example)) = 0x80"
    "\<not> display no_collision_example 0"
    "0 = unat (V no_collision_example (unat (X (decode 0xD011)))) mod 64"
    "0 = unat (V no_collision_example (unat (Y (decode 0xD011)))) mod 32"
    "\<forall>d. d < unat (N (decode 0xD011)) \<and> 0 + d < 32 \<longrightarrow>
         unat (I no_collision_example) + d < ram_size"
    by (simp_all add: no_collision_example_def fetch_Inr boot_fields ram_size_def make_opcode_def
        decode_D011)
  have n: "unat (N (decode 0xD011)) = 1" by (simp add: decode_D011)
  from draw_collision_flag[OF on(1) decode_D011(4) on(4,5,6)] n on(2,3)
  have 1: "\<exists>c'. emulate_instruction collision_example default_config = Inr c' \<and> V c' 15 = 1"
    by auto
  from draw_collision_flag[OF off(1) decode_D011(4) off(4,5,6)] n off(2,3)
  have 2: "\<exists>c'. emulate_instruction no_collision_example default_config = Inr c' \<and> V c' 15 = 0"
    by auto
  from 1 2 on off n show ?thesis by simp
qed

text \<open>
  The row \<^verbatim>\<open>0xFF\<close> drawn from column 60 turns on the columns 60 to 63 of row 0 and leaves the
  columns 0, 3 and 59 of row 0 and the column 0 of row 1 off.
\<close>

theorem draw_clips_witness:
  "fetch clip_example = Inr 0xD011 \<and>
   unat (V clip_example (unat (X (decode 0xD011)))) mod 64 = 60 \<and>
   ram clip_example (unat (I clip_example)) = 0xFF \<and>
   (\<exists>c'. emulate_instruction clip_example default_config = Inr c' \<and>
      display c' 60 \<and> display c' 61 \<and> display c' 62 \<and> display c' 63 \<and>
      \<not> display c' 0 \<and> \<not> display c' 3 \<and> \<not> display c' 59 \<and> \<not> display c' 64)"
proof -
  have h: "fetch clip_example = Inr 0xD011"
    "ram clip_example (unat (I clip_example)) = 0xFF"
    "60 = unat (V clip_example (unat (X (decode 0xD011)))) mod 64"
    "0 = unat (V clip_example (unat (Y (decode 0xD011)))) mod 32"
    "\<forall>d. d < unat (N (decode 0xD011)) \<and> 0 + d < 32 \<longrightarrow> unat (I clip_example) + d < ram_size"
    "display clip_example = (\<lambda>p. False)"
    by (simp_all add: clip_example_def fetch_Inr boot_fields ram_size_def make_opcode_def
        decode_D011)
  from draw_clips[OF h(1) decode_D011(4) h(3,4,5)] obtain c' where
    e: "emulate_instruction clip_example default_config = Inr c'"
    and cells: "\<And>row col. row < 32 \<and> col < 64 \<Longrightarrow>
       display c' (row * 64 + col) =
         (display clip_example (row * 64 + col) \<noteq>
            (0 \<le> row \<and> row < 0 + unat (N (decode 0xD011)) \<and> 60 \<le> col \<and> col < 60 + 8 \<and>
             bit (ram clip_example (unat (I clip_example) + (row - 0))) (7 - (col - 60))))"
    by blast
  have "display c' 60" "display c' 61" "display c' 62" "display c' 63"
    "\<not> display c' 0" "\<not> display c' 3" "\<not> display c' 59" "\<not> display c' 64"
    using cells[of 0 60] cells[of 0 61] cells[of 0 62] cells[of 0 63]
      cells[of 0 0] cells[of 0 3] cells[of 0 59] cells[of 1 0]
    by (simp_all add: h(2,6) decode_D011 bit_0xFF)
  with e h show ?thesis by simp
qed

text \<open>
  \<^verbatim>\<open>AFFF\<close> sets \<^verbatim>\<open>I\<close> to 4095 and leads to a machine in which \<^verbatim>\<open>D012\<close>, two rows from row 0,
  reads the address 4096.
\<close>

theorem sprite_read_unchecked_witness:
  "\<exists>c1. emulate_instruction sprite_oob_example default_config = Inr c1 \<and> reachable c1 \<and>
      I c1 = 0xFFF \<and> fetch c1 = Inr 0xD012 \<and> unat (N (decode 0xD012)) = 2 \<and>
      unat (V c1 (unat (Y (decode 0xD012)))) mod 32 = 0 \<and>
      emulate_instruction c1 default_config = Inl RamOutOfBounds"
proof -
  let ?c1 = "sprite_oob_example\<lparr>PC := PC sprite_oob_example + 2, inst := decode 0xAFFF,
                                I := NNN (decode 0xAFFF)\<rparr>"
  have f: "fetch sprite_oob_example = Inr 0xAFFF"
    by (simp add: sprite_oob_example_def fetch_Inr boot_fields ram_size_def make_opcode_def)
  have s: "drop_bit 12 (0xAFFF :: 16 word) AND 0x0F = 0xA" by simp
  have 1: "emulate_instruction sprite_oob_example default_config = Inr ?c1"
    by (rule emulate_index[OF f s])
  have r: "reachable ?c1"
    by (rule reachable.step[OF _ 1]) (simp add: sprite_oob_example_def reachable_boot)
  have d: "Y (decode 0xD012) = 1" "N (decode 0xD012) = 2" "NNN (decode 0xAFFF) = 0xFFF"
    "drop_bit 12 (0xD012 :: 16 word) AND 0x0F = 0xD"
    by (simp_all add: decode_def)
  have g: "fetch ?c1 = Inr 0xD012" "I ?c1 = 0xFFF"
    "0 = unat (V ?c1 (unat (Y (decode 0xD012)))) mod 32"
    "1 < unat (N (decode 0xD012))" "(0::nat) + 1 < 32" "ram_size \<le> unat (I ?c1) + 1"
    by (simp_all add: sprite_oob_example_def fetch_Inr boot_fields ram_size_def make_opcode_def d)
  from sprite_read_unchecked[OF g(1) d(4) g(3,4,5,6)] 1 r g d show ?thesis
    by simp
qed

section \<open>A program that does not fit\<close>

lemma init_chip8_too_big:
  assumes "3584 < length rom"
  shows "init_chip8 c name (Some rom) = (False, c\<lparr>ram := memcpy_ram (ram c) 0 font\<rparr>)"
  using assms by (simp add: init_chip8_def Let_def ram_size_def)

text \<open>
  Against claim C9 as stated: for a file of 3585 bytes \<^verbatim>\<open>init_chip8\<close> returns false, and by
  then the byte at address 0 of the machine, which was 0, is the first byte of the font.
\<close>

theorem init_chip8_oversized_counterexample:
  "fst (init_chip8 chip8_zero [] (Some (replicate 3585 0))) = False \<and>
   ram chip8_zero 0 = 0 \<and>
   ram (snd (init_chip8 chip8_zero [] (Some (replicate 3585 0)))) 0 = 0xF0"
  by (simp add: init_chip8_too_big memcpy_ram_def length_font) (simp add: chip8_zero_def font_def)

text \<open>
  Claim C9, amended. For a file longer than 3584 bytes \<^verbatim>\<open>init_chip8\<close> returns false. By then
  it has copied the font to the addresses 0 to 79 of the memory, and that is all it has
  written: the rest of the memory and every other field of the machine are as they were.
\<close>

theorem init_chip8_oversized:
  assumes "3584 < length rom"
  shows "fst (init_chip8 c name (Some rom)) = False \<and>
    snd (init_chip8 c name (Some rom)) = c\<lparr>ram := ram (snd (init_chip8 c name (Some rom)))\<rparr> \<and>
    (\<forall>a. ram (snd (init_chip8 c name (Some rom))) a = (if a < 80 then font ! a else ram c a))"
  using assms by (simp add: init_chip8_too_big memcpy_ram_def length_font)

text \<open>
  For 3585 bytes: the font ends at address 79, no program byte is at 512, and the program
  counter and the state are those of the zeroed machine.
\<close>

theorem init_chip8_oversized_witness:
  "3584 < length (replicate 3585 (0 :: 8 word)) \<and>
   fst (init_chip8 chip8_zero [] (Some (replicate 3585 0))) = False \<and>
   ram (snd (init_chip8 chip8_zero [] (Some (replicate 3585 0)))) 79 = 0x80 \<and>
   ram (snd (init_chip8 chip8_zero [] (Some (replicate 3585 0)))) 512 = 0 \<and>
   PC (snd (init_chip8 chip8_zero [] (Some (replicate 3585 0)))) = 0 \<and>
   state (snd (init_chip8 chip8_zero [] (Some (replicate 3585 0)))) = QUIT"
proof -
  have l: "3584 < length (replicate 3585 (0 :: 8 word))" by simp
  have z: "ram chip8_zero 512 = 0" "PC chip8_zero = 0" "state chip8_zero = QUIT"
    by (simp_all add: chip8_zero_def)
  have f: "font ! 79 = 0x80" by (simp add: font_def)
  from init_chip8_oversized[OF l, of chip8_zero "[]"] have
    1: "fst (init_chip8 chip8_zero [] (Some (replicate 3585 0))) = False"
    and 2: "snd (init_chip8 chip8_zero [] (Some (replicate 3585 0))) =
      chip8_zero\<lparr>ram := ram (snd (init_chip8 chip8_zero [] (Some (replicate 3585 0))))\<rparr>"
    and 3: "\<And>a. ram (snd (init_chip8 chip8_zero [] (Some (replicate 3585 0)))) a =
      (if a < 80 then font ! a else ram chip8_zero a)"
    by blast+
  have "PC (snd (init_chip8 chip8_zero [] (Some (replicate 3585 0)))) = 0"
    "state (snd (init_chip8 chip8_zero [] (Some (replicate 3585 0)))) = QUIT"
    by (subst 2, simp add: z)+
  with l 1 3[of 79] 3[of 512] f z show ?thesis by simp
qed

section \<open>The program counter\<close>

lemma draw_sprite_keeps:
  assumes "x < 64" "yc < 32" "draw_sprite default_config x n i yc c = Inr c'"
  shows "c' = c\<lparr>V := V c', display := display c'\<rparr>"
  using assms
proof (induction m \<equiv> "n - i" arbitrary: i yc c)
  case 0
  then show ?case by (simp add: draw_sprite_done)
next
  case (Suc m)
  then have i: "i < n" "m = n - (i + 1)" by simp_all
  have b: "unat (I c) + i < ram_size"
  proof (rule ccontr)
    assume "\<not> unat (I c) + i < ram_size"
    from draw_sprite_fault[OF i(1) this] Suc.prems(3) show False by simp
  qed
  from draw_sprite_row_frame[OF Suc.prems(1,2), of "ram c (unat (I c) + i)" 8 c]
  obtain c1 where c1: "draw_sprite_row default_config (ram c (unat (I c) + i)) yc 8 x c = Inr c1"
    "c1 = c\<lparr>V := V c1, display := display c1\<rparr>" by blast
  note st = draw_sprite_step[OF Suc.prems(2) i(1) b c1(1)]
  show ?case
  proof (cases "yc + 1 < 32")
    case True
    with st Suc.prems(3) have r: "draw_sprite default_config x n (i + 1) (yc + 1) c1 = Inr c'"
      by simp
    from Suc.hyps(1)[OF i(2) Suc.prems(1) True r]
    have e: "c' = c1\<lparr>V := V c', display := display c'\<rparr>" .
    show ?thesis by (subst e, subst c1(2)) simp
  next
    case False
    with st Suc.prems(3) c1(2) show ?thesis by simp
  qed
qed

lemma emulate_control:
  assumes "fetch c = Inr opc" "emulate_instruction c default_config = Inr c'"
  shows "(PC c' = PC c + 2 \<and> stack c' = stack c \<and> stack_ptr c' = stack_ptr c) \<or>
    (drop_bit 12 opc AND 0x0F = 1 \<and> PC c' = NNN (decode opc) \<and> stack c' = stack c \<and>
       stack_ptr c' = stack_ptr c) \<or>
    (drop_bit 12 opc AND 0x0F = 2 \<and> PC c' = NNN (decode opc) \<and>
       stack c' = (stack c)(stack_ptr c := PC c + 2) \<and> stack_ptr c' = stack_ptr c + 1) \<or>
    (0 < stack_ptr c \<and> PC c' = stack c (stack_ptr c - 1) \<and> stack c' = stack c \<and>
       stack_ptr c' = stack_ptr c - 1)"
proof -
  let ?sel = "drop_bit 12 opc AND 0x0F"
  consider (jump) "?sel = 1" | (call) "?sel = 2" | (load) "?sel = 6" | (add) "?sel = 7"
    | (index) "?sel = 0xA" | (draw) "?sel = 0xD"
    | (clear) "?sel = 0" "NN (decode opc) = 0xE0"
    | (return) "?sel = 0" "NN (decode opc) = 0xEE"
    | (other) "?sel \<notin> {1, 2, 6, 7, 0xA, 0xD}"
        "?sel = 0 \<longrightarrow> NN (decode opc) \<noteq> 0xE0 \<and> NN (decode opc) \<noteq> 0xEE"
    by auto
  then show ?thesis
  proof cases
    case jump
    from emulate_jump[OF assms(1) this, of default_config] assms(2) jump show ?thesis by auto
  next
    case call
    from emulate_call[OF assms(1) this, of default_config] assms(2) call show ?thesis
      by (auto split: if_splits)
  next
    case load
    from emulate_load[OF assms(1) this, of default_config] assms(2) show ?thesis by auto
  next
    case add
    from emulate_add[OF assms(1) this, of default_config] assms(2) show ?thesis by auto
  next
    case index
    from emulate_index[OF assms(1) this, of default_config] assms(2) show ?thesis by auto
  next
    case draw
    let ?c0 = "c\<lparr>PC := PC c + 2, inst := decode opc, V := (V c)(15 := 0)\<rparr>"
    from emulate_draw[OF assms(1) draw] assms(2)
    have "draw_sprite default_config (unat (V c (unat (X (decode opc)))) mod 64)
       (unat (N (decode opc))) 0 (unat (V c (unat (Y (decode opc)))) mod 32) ?c0 = Inr c'"
      by simp
    then have e: "c' = ?c0\<lparr>V := V c', display := display c'\<rparr>"
      by (intro draw_sprite_keeps) simp_all
    have "PC c' = PC c + 2" "stack c' = stack c" "stack_ptr c' = stack_ptr c"
      using arg_cong[OF e, of PC] arg_cong[OF e, of stack] arg_cong[OF e, of stack_ptr]
      by simp_all
    then show ?thesis by simp
  next
    case clear
    from emulate_clear[OF assms(1) this, of default_config] assms(2) show ?thesis by auto
  next
    case return
    from emulate_return[OF assms(1) this, of default_config] assms(2) show ?thesis
      by (auto split: if_splits)
  next
    case other
    from emulate_other[OF assms(1) this, of default_config] assms(2) show ?thesis by auto
  qed
qed

lemma init_chip8_TrueD:
  "init_chip8 c0 name rom_file = (True, c) \<Longrightarrow>
   PC c = 0x200 \<and> stack_ptr c = 0 \<and> (\<exists>rom. rom_file = Some rom \<and> rom \<noteq> [] \<and> length rom \<le> 3584)"
  by (auto simp add: init_chip8_def Let_def ram_size_def split: option.splits if_splits)

lemma reachable_even_reachable: "reachable_even c \<Longrightarrow> reachable c"
  by (induction rule: reachable_even.induct) (auto intro: reachable.intros)

lemma reachable_even_invariant:
  assumes "reachable_even c"
  shows "even (unat (PC c)) \<and> unat (PC c) \<le> 4096 \<and>
    (\<forall>k < stack_ptr c. even (unat (stack c k)) \<and> unat (stack c k) \<le> 4096)"
  using assms
proof (induction rule: reachable_even.induct)
  case (start name rom_file chip8)
  from init_chip8_TrueD[OF start] show ?case by simp
next
  case (input chip8 s)
  then show ?case by simp
next
  case (step chip8 opc chip8')
  from fetch_InrD[OF step.hyps(2)] have b: "unat (PC chip8) + 1 < 4096"
    by (simp add: ram_size_def)
  with step.IH have "unat (PC chip8) + 2 \<le> 4096" "even (unat (PC chip8) + 2)"
    by (auto elim!: evenE)
  then have next_pc: "even (unat (PC chip8 + 2))" "unat (PC chip8 + 2) \<le> 4096"
    by (simp_all add: fetch_pc_step[OF step.hyps(2)])
  have target: "unat (NNN (decode opc)) \<le> 4096"
    using decode_NNN_less[of opc] by simp
  from emulate_control[OF step.hyps(2,4)]
  consider
    (seq) "PC chip8' = PC chip8 + 2" "stack chip8' = stack chip8"
      "stack_ptr chip8' = stack_ptr chip8"
    | (jump) "drop_bit 12 opc AND 0x0F = 1" "PC chip8' = NNN (decode opc)"
      "stack chip8' = stack chip8" "stack_ptr chip8' = stack_ptr chip8"
    | (call) "drop_bit 12 opc AND 0x0F = 2" "PC chip8' = NNN (decode opc)"
      "stack chip8' = (stack chip8)(stack_ptr chip8 := PC chip8 + 2)"
      "stack_ptr chip8' = stack_ptr chip8 + 1"
    | (return) "0 < stack_ptr chip8" "PC chip8' = stack chip8 (stack_ptr chip8 - 1)"
      "stack chip8' = stack chip8" "stack_ptr chip8' = stack_ptr chip8 - 1"
    by (elim disjE conjE) simp_all
  then show ?case
  proof cases
    case seq
    with step.IH next_pc show ?thesis by simp
  next
    case jump
    with step.IH step.hyps(3) target show ?thesis by simp
  next
    case call
    with step.IH step.hyps(3) target next_pc show ?thesis by (simp add: less_Suc_eq)
  next
    case return
    then have "stack_ptr chip8 - 1 < stack_ptr chip8" by simp
    with step.IH return show ?thesis by simp
  qed
qed

lemma past_end_run:
  "emulate_instruction past_end_example default_config =
     Inr (past_end_example\<lparr>PC := 0xFFE, inst := decode 0x1FFE\<rparr>)"
  "fetch (past_end_example\<lparr>PC := 0xFFE, inst := decode 0x1FFE\<rparr>) = Inr 0x0000"
  "emulate_instruction (past_end_example\<lparr>PC := 0xFFE, inst := decode 0x1FFE\<rparr>) default_config =
     Inr (past_end_example\<lparr>PC := 0x1000, inst := decode 0x0000\<rparr>)"
proof -
  have f: "fetch past_end_example = Inr 0x1FFE"
    by (simp add: past_end_example_def fetch_Inr boot_fields ram_size_def make_opcode_def)
  have s: "drop_bit 12 (0x1FFE :: 16 word) AND 0x0F = 1" "NNN (decode 0x1FFE) = 0xFFE"
    by (simp_all add: decode_def)
  show "emulate_instruction past_end_example default_config =
     Inr (past_end_example\<lparr>PC := 0xFFE, inst := decode 0x1FFE\<rparr>)"
    using emulate_jump[OF f s(1), of default_config] s(2) by simp
  show g: "fetch (past_end_example\<lparr>PC := 0xFFE, inst := decode 0x1FFE\<rparr>) = Inr 0x0000"
    by (simp add: past_end_example_def fetch_Inr boot_fields ram_size_def make_opcode_def)
  have n: "drop_bit 12 (0x0000 :: 16 word) AND 0x0F \<notin> {1, 2, 6, 7, 0xA, 0xD}"
    "drop_bit 12 (0x0000 :: 16 word) AND 0x0F = 0 \<longrightarrow>
       NN (decode 0x0000) \<noteq> 0xE0 \<and> NN (decode 0x0000) \<noteq> 0xEE"
    by (simp_all add: decode_def)
  show "emulate_instruction (past_end_example\<lparr>PC := 0xFFE, inst := decode 0x1FFE\<rparr>)
      default_config = Inr (past_end_example\<lparr>PC := 0x1000, inst := decode 0x0000\<rparr>)"
    using emulate_other[OF g n, of default_config] by simp
qed

text \<open>
  Against claim C7 as stated, on both counts. The machine started on the program \<^verbatim>\<open>1201\<close> is,
  after its first instruction, in a state whose program counter is the odd address \<^verbatim>\<open>0x201\<close>.
  The machine started on the program \<^verbatim>\<open>1FFE\<close> is, after the jump and the instruction \<^verbatim>\<open>0000\<close>
  found at \<^verbatim>\<open>0xFFE\<close>, in a state whose program counter is 4096, above 4094; no instruction
  has made an access outside an array on the way.
\<close>

theorem pc_even_counterexample:
  "reachable odd_pc_example \<and>
   emulate_instruction odd_pc_example default_config =
     Inr (odd_pc_example\<lparr>PC := 0x201, inst := decode 0x1201\<rparr>) \<and>
   reachable (odd_pc_example\<lparr>PC := 0x201, inst := decode 0x1201\<rparr>) \<and>
   odd (unat (PC (odd_pc_example\<lparr>PC := 0x201, inst := decode 0x1201\<rparr>))) \<and>
   reachable past_end_example \<and>
   emulate_instruction past_end_example default_config =
     Inr (past_end_example\<lparr>PC := 0xFFE, inst := decode 0x1FFE\<rparr>) \<and>
   emulate_instruction (past_end_example\<lparr>PC := 0xFFE, inst := decode 0x1FFE\<rparr>) default_config =
     Inr (past_end_example\<lparr>PC := 0x1000, inst := decode 0x0000\<rparr>) \<and>
   reachable (past_end_example\<lparr>PC := 0x1000, inst := decode 0x0000\<rparr>) \<and>
   unat (PC (past_end_example\<lparr>PC := 0x1000, inst := decode 0x0000\<rparr>)) = 4096 \<and>
   \<not> unat (PC (past_end_example\<lparr>PC := 0x1000, inst := decode 0x0000\<rparr>)) \<le> 4094"
proof -
  have r: "reachable odd_pc_example"
    by (simp add: odd_pc_example_def reachable_boot)
  have f: "fetch odd_pc_example = Inr 0x1201"
    by (simp add: odd_pc_example_def fetch_Inr boot_fields ram_size_def make_opcode_def)
  have s: "drop_bit 12 (0x1201 :: 16 word) AND 0x0F = 1" "NNN (decode 0x1201) = 0x201"
    by (simp_all add: decode_def)
  have e: "emulate_instruction odd_pc_example default_config =
     Inr (odd_pc_example\<lparr>PC := 0x201, inst := decode 0x1201\<rparr>)"
    using emulate_jump[OF f s(1), of default_config] s(2) by simp
  have p: "reachable past_end_example"
    by (simp add: past_end_example_def reachable_boot)
  note p1 = reachable.step[OF p past_end_run(1)]
  note p2 = reachable.step[OF p1 past_end_run(3)]
  from reachable.step[OF r e] r e p p2 past_end_run(1,3) show ?thesis by simp
qed

text \<open>
  Claim C7, amended. Take a state the machine reaches from its initial state by executing
  instructions, none of which makes an access outside an array (the memory, the stack, the
  display) and whose jumps (\<^verbatim>\<open>1NNN\<close>) and calls (\<^verbatim>\<open>2NNN\<close>) all go to even addresses. Its
  program counter is even, and it is an address in the range 0 to 4094 or it is 4096, the
  address after the last instruction of the memory.
\<close>

theorem pc_even_in_range:
  assumes "reachable_even c"
  shows "even (unat (PC c)) \<and> (unat (PC c) \<le> 4094 \<or> unat (PC c) = 4096)"
proof -
  from reachable_even_invariant[OF assms]
  have 1: "even (unat (PC c))" "unat (PC c) \<le> 4096" by simp_all
  then have "unat (PC c) \<noteq> 4095" by auto
  with 1 show ?thesis by linarith
qed

text \<open>
  The jump of \<^verbatim>\<open>1204\<close> leads to a state with the program counter \<^verbatim>\<open>0x204\<close>; the jump of
  \<^verbatim>\<open>1FFE\<close> and the instruction after it lead to a state with the program counter 4096.
\<close>

theorem pc_even_in_range_witness:
  "reachable_even (even_pc_example\<lparr>PC := 0x204, inst := decode 0x1204\<rparr>) \<and>
   even (unat (PC (even_pc_example\<lparr>PC := 0x204, inst := decode 0x1204\<rparr>))) \<and>
   unat (PC (even_pc_example\<lparr>PC := 0x204, inst := decode 0x1204\<rparr>)) \<le> 4094 \<and>
   reachable_even (past_end_example\<lparr>PC := 0x1000, inst := decode 0x0000\<rparr>) \<and>
   even (unat (PC (past_end_example\<lparr>PC := 0x1000, inst := decode 0x0000\<rparr>))) \<and>
   unat (PC (past_end_example\<lparr>PC := 0x1000, inst := decode 0x0000\<rparr>)) = 4096"
proof -
  have r: "reachable_even even_pc_example"
    unfolding even_pc_example_def boot_def
    by (rule reachable_even.start[of "[]" "Some [0x12, 0x04]"]) (simp add: init_chip8_ok)
  have f: "fetch even_pc_example = Inr 0x1204"
    by (simp add: even_pc_example_def fetch_Inr boot_fields ram_size_def make_opcode_def)
  have s: "drop_bit 12 (0x1204 :: 16 word) AND 0x0F = 1" "NNN (decode 0x1204) = 0x204"
    by (simp_all add: decode_def)
  have e: "emulate_instruction even_pc_example default_config =
     Inr (even_pc_example\<lparr>PC := 0x204, inst := decode 0x1204\<rparr>)"
    using emulate_jump[OF f s(1), of default_config] s(2) by simp
  have t: "drop_bit 12 (0x1204 :: 16 word) AND 0x0F \<in> {1, 2} \<longrightarrow>
    even (unat (NNN (decode 0x1204)))"
    by (simp add: s(2))
  note r2 = reachable_even.step[OF r f t e]
  have q: "reachable_even past_end_example"
    unfolding past_end_example_def boot_def
    by (rule reachable_even.start[of "[]" "Some [0x1F, 0xFE]"]) (simp add: init_chip8_ok)
  have qf: "fetch past_end_example = Inr 0x1FFE"
    by (simp add: past_end_example_def fetch_Inr boot_fields ram_size_def make_opcode_def)
  have qt: "drop_bit 12 (0x1FFE :: 16 word) AND 0x0F \<in> {1, 2} \<longrightarrow>
    even (unat (NNN (decode 0x1FFE)))"
    "drop_bit 12 (0x0000 :: 16 word) AND 0x0F \<in> {1, 2} \<longrightarrow>
    even (unat (NNN (decode 0x0000)))"
    by (simp_all add: decode_def)
  note q1 = reachable_even.step[OF q qf qt(1) past_end_run(1)]
  note q2 = reachable_even.step[OF q1 past_end_run(2) qt(2) past_end_run(3)]
  from pc_even_in_range[OF r2] pc_even_in_range[OF q2] r2 q2 show ?thesis by simp
qed

end
